theory Spec2Isabelle
  imports Complex_Main "HOL-Library.Word" "HOL-Library.Code_Target_Numeral"
begin

text \<open>
  The model-loading and inference pipeline of the plant-disease server: the label list
  built from the class-index file, the assembly of the weight shards, the preprocessing of
  an uploaded image, the choice of the class index and of the confidence, the lookup of the
  label and of the remedy, and the handler of \<open>POST /predict\<close> with its clean-up. The
  repository has two versions of the server, one in \<open>server.js\<close> and one in a second
  file, called the first server below; where they differ, the definitions of \<open>server.js\<close>
  carry the suffix \<open>_srv\<close>. What the libraries do (image decoding and resampling, float32
  rounding, model construction and the forward pass) enters as parameters.
\<close>

section \<open>JavaScript values used by the server\<close>

text \<open>
  A JavaScript number that is not NaN is an infinity or a finite value. Finite values are
  kept as rationals; \<open>-0\<close> and \<open>+0\<close> are one value, as they are for \<open>===\<close>,
  \<open><\<close> and \<open>indexOf\<close>.
\<close>

datatype number = NaN | NegInf | Fin rat | PosInf

text \<open>\<open>a < b\<close> on numbers: false as soon as one side is NaN.\<close>

fun num_less :: "number \<Rightarrow> number \<Rightarrow> bool" where
  "num_less NaN _ = False"
| "num_less _ NaN = False"
| "num_less NegInf NegInf = False"
| "num_less NegInf _ = True"
| "num_less (Fin a) (Fin b) = (a < b)"
| "num_less (Fin a) PosInf = True"
| "num_less (Fin a) NegInf = False"
| "num_less PosInf _ = False"

text \<open>\<open>a === b\<close> on numbers: NaN equals nothing, itself included.\<close>

fun strict_eq :: "number \<Rightarrow> number \<Rightarrow> bool" where
  "strict_eq NaN _ = False"
| "strict_eq _ NaN = False"
| "strict_eq a b = (a = b)"

text \<open>
  \<open>a - b\<close>. The difference of two finite values is written exactly; the only use below is
  the sign of the difference of two keys, which rounding does not change.
\<close>

fun num_sub :: "number \<Rightarrow> number \<Rightarrow> number" where
  "num_sub NaN _ = NaN"
| "num_sub _ NaN = NaN"
| "num_sub PosInf PosInf = NaN"
| "num_sub NegInf NegInf = NaN"
| "num_sub PosInf _ = PosInf"
| "num_sub NegInf _ = NegInf"
| "num_sub (Fin a) PosInf = NegInf"
| "num_sub (Fin a) NegInf = PosInf"
| "num_sub (Fin a) (Fin b) = Fin (a - b)"

subsection \<open>Decimal strings\<close>

definition is_digit :: "char \<Rightarrow> bool" where
  "is_digit c = (48 \<le> (of_char c :: nat) \<and> (of_char c :: nat) \<le> 57)"

definition digit_val :: "char \<Rightarrow> nat" where
  "digit_val c = of_char c - 48"

definition digit_char :: "nat \<Rightarrow> char" where
  "digit_char d = char_of (48 + d)"

definition digits_val :: "string \<Rightarrow> nat" where
  "digits_val s = foldl (\<lambda>a c. 10 * a + digit_val c) 0 s"

definition digit_string :: "string \<Rightarrow> bool" where
  "digit_string s = (s \<noteq> [] \<and> list_all is_digit s)"

text \<open>\<open>String(i)\<close> for a non-negative integer \<open>i\<close>: its decimal digits, no leading zero.\<close>

fun show_nat :: "nat \<Rightarrow> string" where
  "show_nat n = (if n < 10 then [digit_char n] else show_nat (n div 10) @ [digit_char (n mod 10)])"

declare show_nat.simps [simp del]

text \<open>
  \<open>Number(s)\<close> for a property key \<open>s\<close>, as the comparator \<open>(a, b) => a - b\<close> coerces its
  arguments. The coercion is modelled on the keys a class-index file has: strings of decimal
  digits whose value is at most \<open>2^53\<close>, where the double is the integer itself. Every
  statement below about \<open>to_number\<close> is restricted to such keys (\<open>index_key\<close>); on
  any other string the model gives NaN and says nothing about the program.
\<close>

definition index_key :: "string \<Rightarrow> bool" where
  "index_key s = (digit_string s \<and> digits_val s \<le> 2 ^ 53)"

definition to_number :: "string \<Rightarrow> number" where
  "to_number s = (if index_key s then Fin (of_nat (digits_val s)) else NaN)"

section \<open>Objects\<close>

text \<open>
  An object built by \<open>JSON.parse\<close> or by assignments to \<open>{}\<close> is the list of its own
  properties in the order \<open>Object.keys\<close> and \<open>JSON.stringify\<close> visit them: first the
  keys that are array indices (canonical decimal strings below \<open>2^32 - 1\<close>) in ascending
  numeric order, then the other keys in the order they were created.
\<close>

type_synonym 'v obj = "(string \<times> 'v) list"

definition array_index :: "string \<Rightarrow> nat option" where
  "array_index s =
     (if digit_string s \<and> (s = ''0'' \<or> hd s \<noteq> CHR ''0'') \<and> digits_val s < 2 ^ 32 - 1
      then Some (digits_val s) else None)"

text \<open>Where a property with a new key goes.\<close>

fun obj_insert :: "string \<Rightarrow> 'v \<Rightarrow> 'v obj \<Rightarrow> 'v obj" where
  "obj_insert k v [] = [(k, v)]"
| "obj_insert k v ((k', v') # ps) =
     (case array_index k of
        None \<Rightarrow> (k', v') # obj_insert k v ps
      | Some n \<Rightarrow>
          (case array_index k' of
             None \<Rightarrow> (k, v) # (k', v') # ps
           | Some n' \<Rightarrow> if n < n' then (k, v) # (k', v') # ps else (k', v') # obj_insert k v ps))"

text \<open>\<open>o[k] = v\<close>: an existing property keeps its place and takes the new value.\<close>

definition obj_put :: "string \<Rightarrow> 'v \<Rightarrow> 'v obj \<Rightarrow> 'v obj" where
  "obj_put k v ps =
     (if k \<in> set (map fst ps) then map (\<lambda>(k', v'). if k' = k then (k', v) else (k', v')) ps
      else obj_insert k v ps)"

text \<open>Own-property lookup; \<open>None\<close> is \<open>undefined\<close>.\<close>

definition obj_get :: "'v obj \<Rightarrow> string \<Rightarrow> 'v option" where
  "obj_get ps k = map_of ps k"

definition object_keys :: "'v obj \<Rightarrow> string list" where
  "object_keys ps = map fst ps"

text \<open>
  \<open>JSON.parse\<close> of an object literal, given as its members in the order of the text:
  each member is defined in turn, so a repeated key keeps its first place and its last value.
\<close>

definition json_parse_object :: "(string \<times> 'v) list \<Rightarrow> 'v obj" where
  "json_parse_object members = foldl (\<lambda>ob (k, v). obj_put k v ob) [] members"

section \<open>Label list\<close>

text \<open>
  \<open>Array.prototype.sort(cmp)\<close>: the sort is stable, and with a consistent comparator its
  result is the one stable insertion computes. An element moves past the elements that the
  comparator puts strictly before it (\<open>cmp(x, y) > 0\<close>); a NaN from the comparator counts
  as \<open>0\<close>.
\<close>

fun is_positive :: "number \<Rightarrow> bool" where
  "is_positive PosInf = True"
| "is_positive (Fin q) = (0 < q)"
| "is_positive _ = False"

fun sort_insert :: "('a \<Rightarrow> 'a \<Rightarrow> number) \<Rightarrow> 'a \<Rightarrow> 'a list \<Rightarrow> 'a list" where
  "sort_insert cmp x [] = [x]"
| "sort_insert cmp x (y # ys) =
     (if is_positive (cmp x y) then y # sort_insert cmp x ys else x # y # ys)"

definition array_sort :: "('a \<Rightarrow> 'a \<Rightarrow> number) \<Rightarrow> 'a list \<Rightarrow> 'a list" where
  "array_sort cmp xs = foldr (sort_insert cmp) xs []"

text \<open>The comparator of \<open>initialize\<close>: \<open>(a, b) => a - b\<close> on two key strings.\<close>

definition key_compare :: "string \<Rightarrow> string \<Rightarrow> number" where
  "key_compare a b = num_sub (to_number a) (to_number b)"

text \<open>
  \<open>labels = Object.keys(classIndices).sort((a, b) => a - b).map((key) => classIndices[key])\<close>,
  the same in both servers. An element is \<open>None\<close> where the lookup gives \<open>undefined\<close>.
\<close>

definition build_labels :: "string obj \<Rightarrow> string option list" where
  "build_labels classIndices =
     map (\<lambda>key. obj_get classIndices key) (array_sort key_compare (object_keys classIndices))"

text \<open>
  \<open>train_model.js\<close> writes the class-index file:
  \<open>labels.forEach((label, i) => (classIndices[i] = label))\<close> on an empty object, then
  \<open>JSON.stringify(classIndices, null, 2)\<close>. The text of the file is kept as the list of
  its members, which \<open>JSON.stringify\<close> emits in property order.
\<close>

definition train_class_indices :: "string list \<Rightarrow> string obj" where
  "train_class_indices labels =
     foldl (\<lambda>classIndices (i, label). obj_put (show_nat i) label classIndices) []
       (enumerate 0 labels)"

definition json_stringify_object :: "'v obj \<Rightarrow> (string \<times> 'v) list" where
  "json_stringify_object ob = ob"

section \<open>Files\<close>

type_synonym byte = "8 word"
type_synonym path = string

text \<open>The file system: the regular files the process can read and delete, by path.\<close>

type_synonym file_system = "path \<rightharpoonup> byte list"

text \<open>
  A thrown \<open>Error\<close> (or \<open>TypeError\<close>, \<open>RangeError\<close>) with its message. The
  messages of errors thrown by the runtime are written without their quotation marks.
\<close>

datatype exn = Error string

fun message :: "exn \<Rightarrow> string" where
  "message (Error m) = m"

definition existsSync :: "file_system \<Rightarrow> path \<Rightarrow> bool" where
  "existsSync fs p = (fs p \<noteq> None)"

definition readFileSync :: "file_system \<Rightarrow> path \<Rightarrow> exn + byte list" where
  "readFileSync fs p =
     (case fs p of
        None \<Rightarrow> Inl (Error (''ENOENT: no such file or directory, open '' @ p))
      | Some content \<Rightarrow> Inr content)"

definition unlinkSync :: "file_system \<Rightarrow> path \<Rightarrow> file_system" where
  "unlinkSync fs p = fs(p := None)"

section \<open>Weight loading\<close>

text \<open>
  \<open>model.json\<close> as the server reads it: the topology and the weights manifest, a list of
  groups, each with its shard paths and its weight specifications.
\<close>

record 'spec weights_group =
  paths :: "path list"
  weights :: "'spec list"

record ('topo, 'spec) model_json =
  modelTopology :: 'topo
  weightsManifest :: "'spec weights_group list"

text \<open>What \<open>modelIOHandler.load\<close> hands to model construction.\<close>

record ('topo, 'spec) model_artifacts =
  artifactTopology :: 'topo
  weightSpecs :: "'spec list"
  weightData :: "byte list"

text \<open>
  \<open>shardPaths.map((shardPath) => fs.readFileSync(path.join(MODEL_DIR, shardPath)))\<close>:
  the shards are read one after the other, in the order of the list, and the first read that
  throws ends the loop. The first component is the list of the paths read, in the order of
  the reads. \<open>model_path\<close> is \<open>path.join(MODEL_DIR, _)\<close>.
\<close>

fun read_shards ::
  "file_system \<Rightarrow> (path \<Rightarrow> path) \<Rightarrow> path list \<Rightarrow> path list \<times> (exn + byte list list)" where
  "read_shards fs model_path [] = ([], Inr [])"
| "read_shards fs model_path (shardPath # rest) =
     (case readFileSync fs (model_path shardPath) of
        Inl e \<Rightarrow> ([model_path shardPath], Inl e)
      | Inr buf \<Rightarrow>
          (case read_shards fs model_path rest of
             (reads, Inl e) \<Rightarrow> (model_path shardPath # reads, Inl e)
           | (reads, Inr bufs) \<Rightarrow> (model_path shardPath # reads, Inr (buf # bufs))))"

text \<open>
  A \<open>Buffer\<close> is a view on an \<open>ArrayBuffer\<close>: \<open>byteLength\<close> bytes from \<open>byteOffset\<close>.
\<close>

record js_buffer =
  buffer :: "byte list"
  byteOffset :: nat
  byteLength :: nat

text \<open>
  \<open>Buffer.concat(list)\<close> allocates a buffer of the total length and copies the buffers into
  it in order; it throws when the total length exceeds \<open>kMaxLength\<close>. The allocation may
  be a slice of a shared pool: \<open>before\<close> and \<open>after\<close> are the bytes of the underlying
  \<open>ArrayBuffer\<close> on either side of the view.
\<close>

definition buffer_concat ::
  "nat \<Rightarrow> byte list \<Rightarrow> byte list \<Rightarrow> byte list list \<Rightarrow> exn + js_buffer" where
  "buffer_concat kMaxLength before after list =
     (let totalLength = sum_list (map length list) in
      if totalLength > kMaxLength then Inl (Error ''The value of size is out of range.'')
      else Inr \<lparr>buffer = before @ concat list @ after,
                byteOffset = length before,
                byteLength = totalLength\<rparr>)"

text \<open>\<open>ArrayBuffer.prototype.slice(start, stop)\<close> with non-negative arguments.\<close>

definition array_buffer_slice :: "byte list \<Rightarrow> nat \<Rightarrow> nat \<Rightarrow> byte list" where
  "array_buffer_slice ab start stop =
     (let len = length ab; first = min start len; final = min stop len
      in take (final - first) (drop first ab))"

text \<open>
  The manual weight loading of \<open>initialize\<close>, from \<open>modelJson.weightsManifest[0].paths\<close>
  to the artifacts that \<open>modelIOHandler.load\<close> returns. Only the first group of the manifest
  is used; a manifest with no group throws at \<open>weightsManifest[0].paths\<close>.
\<close>

definition load_weights ::
  "file_system \<Rightarrow> (path \<Rightarrow> path) \<Rightarrow> nat \<Rightarrow> byte list \<Rightarrow> byte list \<Rightarrow>
   ('topo, 'spec) model_json \<Rightarrow> path list \<times> (exn + ('topo, 'spec) model_artifacts)" where
  "load_weights fs model_path kMaxLength before after modelJson =
     (case weightsManifest modelJson of
        [] \<Rightarrow> ([], Inl (Error ''Cannot read properties of undefined (reading paths)''))
      | manifestGroup # _ \<Rightarrow>
          (let shardPaths = paths manifestGroup in
           case read_shards fs model_path shardPaths of
             (reads, Inl e) \<Rightarrow> (reads, Inl e)
           | (reads, Inr weightBuffers) \<Rightarrow>
               (case buffer_concat kMaxLength before after weightBuffers of
                  Inl e \<Rightarrow> (reads, Inl e)
                | Inr combinedWeights \<Rightarrow>
                    (reads,
                     Inr \<lparr>artifactTopology = modelTopology modelJson,
                          weightSpecs = weights manifestGroup,
                          weightData =
                            array_buffer_slice (buffer combinedWeights)
                              (byteOffset combinedWeights)
                              (byteOffset combinedWeights + byteLength combinedWeights)\<rparr>))))"

section \<open>Preprocessing\<close>

text \<open>
  A tensor: its shape and its values in row-major order. A canvas: its size and the RGBA
  bytes of each pixel (\<open>pixel canvas x y\<close>).
\<close>

record 'a tensor =
  shape :: "nat list"
  vals :: "'a list"

type_synonym rgba = "byte \<times> byte \<times> byte \<times> byte"

record canvas =
  width :: nat
  height :: nat
  pixel :: "nat \<Rightarrow> nat \<Rightarrow> rgba"

text \<open>\<open>createCanvas(w, h)\<close>: a transparent black canvas.\<close>

definition createCanvas :: "nat \<Rightarrow> nat \<Rightarrow> canvas" where
  "createCanvas w h = \<lparr>width = w, height = h, pixel = (\<lambda>x y. (0, 0, 0, 0))\<rparr>"

text \<open>
  \<open>ctx.drawImage(image, 0, 0, 224, 224)\<close> scales the image into the canvas. The resampling
  belongs to the canvas library: \<open>paint img canvas\<close> is the pixel content it leaves. Drawing
  changes pixels only, never the size of the canvas.
\<close>

definition drawImage :: "('img \<Rightarrow> canvas \<Rightarrow> nat \<Rightarrow> nat \<Rightarrow> rgba) \<Rightarrow> 'img \<Rightarrow> canvas \<Rightarrow> canvas" where
  "drawImage paint img cv = cv\<lparr>pixel := paint img cv\<rparr>"

text \<open>
  \<open>tf.browser.fromPixels(canvas)\<close>: an int32 tensor of shape \<open>[height, width, 3]\<close> with the
  red, green and blue bytes of each pixel, row by row; the alpha byte is dropped.
\<close>

definition fromPixels :: "canvas \<Rightarrow> int tensor" where
  "fromPixels cv =
     \<lparr>shape = [height cv, width cv, 3],
      vals = concat (map (\<lambda>y. concat (map (\<lambda>x.
                 (case pixel cv x y of (r, g, b, a) \<Rightarrow> [uint r, uint g, uint b]))
                 [0..<width cv])) [0..<height cv])\<rparr>"

text \<open>
  \<open>toFloat()\<close>: the same values as float32, exact for integers up to \<open>2^24\<close> in magnitude
  (pixel channels are bytes).
\<close>

definition toFloat :: "int tensor \<Rightarrow> rat tensor" where
  "toFloat t = \<lparr>shape = shape t, vals = map of_int (vals t)\<rparr>"

text \<open>
  \<open>div(tf.scalar(255.0))\<close>: each value divided by the scalar, the quotient rounded to a
  float32 by the backend. The rounding \<open>f32\<close> is a parameter; a rounding to nearest is
  monotone and leaves the float32 values \<open>0\<close> and \<open>1\<close> unchanged, which is all that is
  assumed of it.
\<close>

definition div_scalar :: "(rat \<Rightarrow> rat) \<Rightarrow> rat \<Rightarrow> rat tensor \<Rightarrow> rat tensor" where
  "div_scalar f32 s t = \<lparr>shape = shape t, vals = map (\<lambda>v. f32 (v / s)) (vals t)\<rparr>"

definition rounding :: "(rat \<Rightarrow> rat) \<Rightarrow> bool" where
  "rounding f32 = (mono f32 \<and> f32 0 = 0 \<and> f32 1 = 1)"

text \<open>\<open>expandDims()\<close>: a leading dimension of size 1.\<close>

definition expandDims :: "'a tensor \<Rightarrow> 'a tensor" where
  "expandDims t = \<lparr>shape = 1 # shape t, vals = vals t\<rparr>"

text \<open>The tail of both preprocessing chains: \<open>.toFloat().div(tf.scalar(255)).expandDims()\<close>.\<close>

definition normalize :: "(rat \<Rightarrow> rat) \<Rightarrow> int tensor \<Rightarrow> rat tensor" where
  "normalize f32 t = expandDims (div_scalar f32 255 (toFloat t))"

text \<open>
  The first server: \<open>createCanvas(224, 224)\<close>, \<open>drawImage\<close>, \<open>fromPixels\<close>, then the tail.
\<close>

definition preprocess ::
  "('img \<Rightarrow> canvas \<Rightarrow> nat \<Rightarrow> nat \<Rightarrow> rgba) \<Rightarrow> (rat \<Rightarrow> rat) \<Rightarrow> 'img \<Rightarrow> rat tensor" where
  "preprocess paint f32 img =
     (let cv = createCanvas 224 224;
          cv = drawImage paint img cv
      in normalize f32 (fromPixels cv))"

text \<open>
  \<open>server.js\<close> decodes the JPEG that Jimp wrote with \<open>tf.node.decodeImage\<close>, which gives
  an int32 image tensor of rank 3: rows, columns, channels, and the samples in that order.
\<close>

record image_tensor =
  rows :: nat
  cols :: nat
  channels :: nat
  samples :: "int list"

text \<open>
  \<open>resizeNearestNeighbor([224, 224])\<close>: the sample of output row \<open>y\<close>, column \<open>x\<close> is the
  one of source row \<open>min (rows - 1) \<lfloor>y * rows / 224\<rfloor>\<close> and the like column. The library
  computes the source index in floating point; here it is computed exactly, which is the
  same when the image already has 224 rows and columns, as the one Jimp resized has.
\<close>

definition resizeNearestNeighbor :: "nat \<Rightarrow> nat \<Rightarrow> image_tensor \<Rightarrow> image_tensor" where
  "resizeNearestNeighbor newHeight newWidth im =
     \<lparr>rows = newHeight, cols = newWidth, channels = channels im,
      samples = concat (map (\<lambda>y. concat (map (\<lambda>x. map (\<lambda>ch.
                  samples im !
                    ((min (rows im - 1) (y * rows im div newHeight) * cols im
                      + min (cols im - 1) (x * cols im div newWidth)) * channels im + ch))
                  [0..<channels im]) [0..<newWidth])) [0..<newHeight])\<rparr>"

definition as_tensor :: "image_tensor \<Rightarrow> int tensor" where
  "as_tensor im = \<lparr>shape = [rows im, cols im, channels im], vals = samples im\<rparr>"

definition preprocess_srv :: "(rat \<Rightarrow> rat) \<Rightarrow> image_tensor \<Rightarrow> rat tensor" where
  "preprocess_srv f32 decoded = normalize f32 (as_tensor (resizeNearestNeighbor 224 224 decoded))"

text \<open>An image tensor as \<open>decodeImage\<close> returns it: not empty, one byte per sample.\<close>

definition decoded_image :: "image_tensor \<Rightarrow> bool" where
  "decoded_image im =
     (0 < rows im \<and> 0 < cols im
      \<and> length (samples im) = rows im * cols im * channels im
      \<and> list_all (\<lambda>v. 0 \<le> v \<and> v \<le> 255) (samples im))"

section \<open>Prediction\<close>

subsection \<open>Class index and confidence\<close>

text \<open>
  \<open>Math.max(...data)\<close>: \<open>-Infinity\<close> for no argument, NaN as soon as one argument is
  NaN, else the largest argument. (The spread passes one argument per class; a vector too
  long for the call stack is not considered.)
\<close>

definition math_max :: "number list \<Rightarrow> number" where
  "math_max xs =
     foldl (\<lambda>highest x. if highest = NaN \<or> x = NaN then NaN
                          else if num_less highest x then x else highest) NegInf xs"

text \<open>
  \<open>data.indexOf(v)\<close> on a typed array: the first index whose element is strictly equal to
  \<open>v\<close>, or \<open>-1\<close>.
\<close>

fun index_from :: "int \<Rightarrow> number list \<Rightarrow> number \<Rightarrow> int" where
  "index_from i [] v = -1"
| "index_from i (x # xs) v = (if strict_eq x v then i else index_from (i + 1) xs v)"

definition indexOf :: "number list \<Rightarrow> number \<Rightarrow> int" where
  "indexOf xs v = index_from 0 xs v"

text \<open>\<open>const maxIdx = data.indexOf(Math.max(...data))\<close>\<close>

definition max_index :: "number list \<Rightarrow> int" where
  "max_index data = indexOf data (math_max data)"

text \<open>\<open>xs[i]\<close> on an array or typed array: \<open>undefined\<close> (\<open>None\<close>) outside the bounds.\<close>

definition element_at :: "'a list \<Rightarrow> int \<Rightarrow> 'a option" where
  "element_at xs i = (if 0 \<le> i \<and> i < int (length xs) then Some (xs ! nat i) else None)"

text \<open>
  \<open>data[maxIdx] * 100\<close>. An element of a \<open>Float32Array\<close> has a 24-bit significand, so
  its product with 100 is a double and the multiplication is exact; \<open>undefined * 100\<close> is
  NaN.
\<close>

fun times100 :: "number option \<Rightarrow> number" where
  "times100 None = NaN"
| "times100 (Some NaN) = NaN"
| "times100 (Some PosInf) = PosInf"
| "times100 (Some NegInf) = NegInf"
| "times100 (Some (Fin x)) = Fin (x * 100)"

text \<open>
  \<open>Number.prototype.toFixed(2)\<close>. For \<open>0 \<le> x < 10^21\<close> let \<open>n\<close> be the integer for which
  \<open>n / 100 - x\<close> is closest to zero, the larger one of two; the result is the decimal digits
  of \<open>n\<close>, padded with zeros to three digits, with a point before the last two. From
  \<open>10^21\<close> on the result is \<open>String(x)\<close>, which the parameter \<open>to_string\<close> stands for.
\<close>

definition fixed2_digits :: "nat \<Rightarrow> string" where
  "fixed2_digits n =
     (let m = (if n = 0 then ''0'' else show_nat n);
          m = (if length m \<le> 2 then replicate (3 - length m) CHR ''0'' @ m else m);
          k = length m
      in take (k - 2) m @ ''.'' @ drop (k - 2) m)"

definition nearest_hundredth :: "rat \<Rightarrow> nat" where
  "nearest_hundredth x = nat \<lfloor>x * 100 + 1 / 2\<rfloor>"

fun toFixed2 :: "(rat \<Rightarrow> string) \<Rightarrow> number \<Rightarrow> string" where
  "toFixed2 to_string NaN = ''NaN''"
| "toFixed2 to_string PosInf = ''Infinity''"
| "toFixed2 to_string NegInf = ''-Infinity''"
| "toFixed2 to_string (Fin x) =
     (if \<bar>x\<bar> \<ge> 10 ^ 21 then (if x < 0 then ''-'' else '''') @ to_string \<bar>x\<bar>
      else (if x < 0 then ''-'' else '''') @ fixed2_digits (nearest_hundredth \<bar>x\<bar>))"

text \<open>\<open>const confidence = (data[maxIdx] * 100).toFixed(2)\<close>\<close>

definition confidence_of :: "(rat \<Rightarrow> string) \<Rightarrow> number list \<Rightarrow> int \<Rightarrow> string" where
  "confidence_of to_string data maxIdx = toFixed2 to_string (times100 (element_at data maxIdx))"

text \<open>An element of a probability vector: a finite number between 0 and 1.\<close>

fun probability :: "number \<Rightarrow> bool" where
  "probability (Fin p) = (0 \<le> p \<and> p \<le> 1)"
| "probability _ = False"

subsection \<open>Label and remedy\<close>

text \<open>
  \<open>const label = labels[maxIdx] || "Unknown"\<close>: the fallback is taken when the element is
  \<open>undefined\<close> or the empty string.
\<close>

definition resolve_label :: "string option list \<Rightarrow> int \<Rightarrow> string" where
  "resolve_label labels maxIdx =
     (case element_at labels maxIdx of
        Some (Some name) \<Rightarrow> if name = [] then ''Unknown'' else name
      | _ \<Rightarrow> ''Unknown'')"

text \<open>
  JSON values, as \<open>diseaseInfo.json\<close> may hold them. A nested object is given by the
  properties it has once parsed.
\<close>

datatype json =
  JNull | JBool bool | JNum rat | JStr string | JArr "json list" | JObj "(string \<times> json) list"

text \<open>
  The values the handler computes with: \<open>undefined\<close>, a JSON value, or a value inherited from
  \<open>Object.prototype\<close> (a built-in function, or the prototype itself for \<open>__proto__\<close>).
\<close>

datatype jsval = Undefined | Json json | Inherited string

definition object_prototype_keys :: "string list" where
  "object_prototype_keys =
     [''constructor'', ''hasOwnProperty'', ''isPrototypeOf'', ''propertyIsEnumerable'',
      ''toLocaleString'', ''toString'', ''valueOf'', ''__proto__'',
      ''__defineGetter__'', ''__defineSetter__'', ''__lookupGetter__'', ''__lookupSetter__'']"

text \<open>
  \<open>ob[key]\<close> on a plain object: an own property, else a property of \<open>Object.prototype\<close>,
  else \<open>undefined\<close>.
\<close>

definition get_property :: "json obj \<Rightarrow> string \<Rightarrow> jsval" where
  "get_property ob key =
     (case obj_get ob key of
        Some v \<Rightarrow> Json v
      | None \<Rightarrow> if key \<in> set object_prototype_keys then Inherited key else Undefined)"

fun truthy :: "jsval \<Rightarrow> bool" where
  "truthy Undefined = False"
| "truthy (Inherited _) = True"
| "truthy (Json JNull) = False"
| "truthy (Json (JBool b)) = b"
| "truthy (Json (JNum x)) = (x \<noteq> 0)"
| "truthy (Json (JStr s)) = (s \<noteq> [])"
| "truthy (Json (JArr _)) = True"
| "truthy (Json (JObj _)) = True"

text \<open>
  \<open>info.solution\<close> and \<open>info.pesticide\<close> on a truthy \<open>info\<close>: an own property of a JSON
  object, else \<open>undefined\<close>, since no prototype of a string, number, boolean, array, function
  or object has a property of either name.
\<close>

definition get_field :: "jsval \<Rightarrow> string \<Rightarrow> jsval" where
  "get_field info name =
     (case info of
        Json (JObj props) \<Rightarrow> (case obj_get props name of Some v \<Rightarrow> Json v | None \<Rightarrow> Undefined)
      | _ \<Rightarrow> Undefined)"

text \<open>
  The first server:
  \<open>solutions[label] || { disease: label, solution: "Use proper fertilizers and care.",
  pesticide: "Apply recommended pesticide." }\<close>
\<close>

definition default_info :: "string \<Rightarrow> jsval" where
  "default_info label =
     Json (JObj [(''disease'', JStr label),
                 (''solution'', JStr ''Use proper fertilizers and care.''),
                 (''pesticide'', JStr ''Apply recommended pesticide.'')])"

definition remedy_info :: "json obj \<Rightarrow> string \<Rightarrow> jsval" where
  "remedy_info solutions label =
     (let entry = get_property solutions label in
      if truthy entry then entry else default_info label)"

text \<open>
  \<open>server.js\<close>:
  \<open>solutions[label] || { solution: "General care needed.", pesticide: "Use appropriate pesticide." }\<close>
\<close>

definition default_info_srv :: jsval where
  "default_info_srv =
     Json (JObj [(''solution'', JStr ''General care needed.''),
                 (''pesticide'', JStr ''Use appropriate pesticide.'')])"

definition remedy_info_srv :: "json obj \<Rightarrow> string \<Rightarrow> jsval" where
  "remedy_info_srv solutions label =
     (let entry = get_property solutions label in
      if truthy entry then entry else default_info_srv)"

text \<open>
  The own enumerable properties that \<open>...info\<close> copies into an object literal: those of an
  object, the elements of an array and the characters of a string under their indices,
  nothing for a number, a boolean or a built-in.
\<close>

fun spread_properties :: "jsval \<Rightarrow> (string \<times> jsval) list" where
  "spread_properties (Json (JObj props)) = map (\<lambda>(k, v). (k, Json v)) props"
| "spread_properties (Json (JArr xs)) = map (\<lambda>(i, v). (show_nat i, Json v)) (enumerate 0 xs)"
| "spread_properties (Json (JStr s)) = map (\<lambda>(i, c). (show_nat i, Json (JStr [c]))) (enumerate 0 s)"
| "spread_properties _ = []"

text \<open>An object literal: its properties are defined one after the other.\<close>

definition object_literal :: "(string \<times> 'v) list \<Rightarrow> 'v obj" where
  "object_literal props = foldl (\<lambda>ob (k, v). obj_put k v ob) [] props"

section \<open>Server state and start-up\<close>

text \<open>
  A loaded model, as the handler uses it: \<open>model.predict(input)\<close> followed by
  \<open>prediction.data()\<close> gives the output vector or throws.
\<close>

type_synonym loaded_model = "rat tensor \<Rightarrow> exn + number list"

text \<open>The global variables \<open>model\<close>, \<open>labels\<close> and \<open>solutions\<close>.\<close>

record server_state =
  model :: "loaded_model option"
  labels :: "string option list"
  solutions :: "json obj"

definition initial_state :: server_state where
  "initial_state = \<lparr>model = None, labels = [], solutions = []\<rparr>"





section \<open>The prediction endpoint\<close>

text \<open>\<open>req.file\<close> as multer leaves it: the path of the uploaded file.\<close>

record multer_file =
  path :: path

text \<open>
  A response: \<open>res.status(code).json(body)\<close> or \<open>res.status(code).send(text)\<close>. A property
  of the body whose value is \<open>undefined\<close> is left out when the body is serialised.
\<close>

datatype response = Json_response nat "jsval obj" | Text_response nat string

text \<open>
  What a request does besides answering, in order: decoding the upload, a forward pass of
  the model, deleting the upload.
\<close>

datatype event = LoadImage path | Predict | Unlink path

text \<open>
  The libraries of the first server: the decoder of \<open>loadImage\<close>, the resampling of
  \<open>drawImage\<close>, the float32 rounding of the division and \<open>String(x)\<close> for large numbers.
\<close>

record 'img runtime =
  rt_decode :: "byte list \<Rightarrow> exn + 'img"
  rt_paint :: "'img \<Rightarrow> canvas \<Rightarrow> nat \<Rightarrow> nat \<Rightarrow> rgba"
  rt_f32 :: "rat \<Rightarrow> rat"
  rt_to_string :: "rat \<Rightarrow> string"

text \<open>\<open>await loadImage(imgPath)\<close>: reads the file and decodes it.\<close>

definition loadImage :: "'img runtime \<Rightarrow> file_system \<Rightarrow> path \<Rightarrow> exn + 'img" where
  "loadImage rt fs imgPath =
     (case readFileSync fs imgPath of Inl e \<Rightarrow> Inl e | Inr bytes \<Rightarrow> rt_decode rt bytes)"

text \<open>From the output vector to the success response of the first server.\<close>

definition success_response :: "(rat \<Rightarrow> string) \<Rightarrow> server_state \<Rightarrow> number list \<Rightarrow> response" where
  "success_response to_string st data =
     (let maxIdx = max_index data;
          confidence = confidence_of to_string data maxIdx;
          label = resolve_label (labels st) maxIdx;
          info = remedy_info (solutions st) label
      in Json_response 200
           (object_literal
              [(''status'', Json (JStr ''success'')),
               (''label'', Json (JStr label)),
               (''confidence'', Json (JStr confidence)),
               (''solution'', get_field info ''solution''),
               (''pesticide'', get_field info ''pesticide'')]))"

text \<open>The \<open>try\<close> block of the first server's handler.\<close>

definition predict_try ::
  "'img runtime \<Rightarrow> server_state \<Rightarrow> file_system \<Rightarrow> path \<Rightarrow> event list \<times> (exn + response)" where
  "predict_try rt st fs imgPath =
     (case model st of
        None \<Rightarrow> ([], Inl (Error ''Model not loaded yet.''))
      | Some m \<Rightarrow>
          (case loadImage rt fs imgPath of
             Inl e \<Rightarrow> ([LoadImage imgPath], Inl e)
           | Inr img \<Rightarrow>
               (let input = preprocess (rt_paint rt) (rt_f32 rt) img in
                case m input of
                  Inl e \<Rightarrow> ([LoadImage imgPath, Predict], Inl e)
                | Inr data \<Rightarrow>
                    ([LoadImage imgPath, Predict],
                     Inr (success_response (rt_to_string rt) st data)))))"

text \<open>
  The handler of \<open>POST /predict\<close> in the first server: the answer, the file system it
  leaves and what it did. Without a file it answers 400 before the \<open>try\<close>; otherwise the
  \<open>catch\<close> turns an exception into a 500 answer with its message, and the \<open>finally\<close> deletes
  the upload if it exists.
\<close>

definition predict_handler ::
  "'img runtime \<Rightarrow> server_state \<Rightarrow> file_system \<Rightarrow> multer_file option \<Rightarrow>
   response \<times> file_system \<times> event list" where
  "predict_handler rt st fs req_file =
     (case req_file of
        None \<Rightarrow>
          (Json_response 400
             (object_literal [(''status'', Json (JStr ''error'')),
                              (''message'', Json (JStr ''No file uploaded.''))]),
           fs, [])
      | Some file \<Rightarrow>
          (let imgPath = path file;
               (events, outcome) = predict_try rt st fs imgPath;
               res = (case outcome of
                        Inr r \<Rightarrow> r
                      | Inl err \<Rightarrow>
                          Json_response 500
                            (object_literal
                               [(''status'', Json (JStr ''error'')),
                                (''message'', Json (JStr (if message err = [] then ''Prediction failed.''
                                                           else message err)))]))
           in if existsSync fs imgPath
              then (res, unlinkSync fs imgPath, events @ [Unlink imgPath])
              else (res, fs, events)))"

text \<open>
  The libraries of \<open>server.js\<close>: Jimp (\<open>read\<close>, \<open>resize(224, 224)\<close> and
  \<open>getBufferAsync(Jimp.MIME_JPEG)\<close> together), \<open>tf.node.decodeImage\<close>, the rounding and
  \<open>String(x)\<close>.
\<close>

record runtime_srv =
  rt_jimp :: "byte list \<Rightarrow> exn + byte list"
  rt_decodeImage :: "byte list \<Rightarrow> exn + image_tensor"
  rt_f32_srv :: "rat \<Rightarrow> rat"
  rt_to_string_srv :: "rat \<Rightarrow> string"

definition success_response_srv :: "(rat \<Rightarrow> string) \<Rightarrow> server_state \<Rightarrow> number list \<Rightarrow> response" where
  "success_response_srv to_string st data =
     (let maxIdx = max_index data;
          confidence = confidence_of to_string data maxIdx;
          label = resolve_label (labels st) maxIdx;
          info = remedy_info_srv (solutions st) label
      in Json_response 200
           (object_literal
              ([(''status'', Json (JStr ''success'')),
                (''label'', Json (JStr label)),
                (''confidence'', Json (JStr confidence))]
               @ spread_properties info)))"

text \<open>
  The \<open>try\<close> block of the handler of \<open>server.js\<close>. There is no test of \<open>model\<close>:
  \<open>model.predict\<close> on \<open>undefined\<close> throws a \<open>TypeError\<close>, after the image was processed.
\<close>

definition predict_try_srv ::
  "runtime_srv \<Rightarrow> server_state \<Rightarrow> file_system \<Rightarrow> multer_file option \<Rightarrow>
   event list \<times> (exn + response)" where
  "predict_try_srv rt st fs req_file =
     (case req_file of
        None \<Rightarrow> ([], Inr (Text_response 400 ''No image uploaded.''))
      | Some file \<Rightarrow>
          (case (case readFileSync fs (path file) of Inl e \<Rightarrow> Inl e | Inr bytes \<Rightarrow> rt_jimp rt bytes) of
             Inl e \<Rightarrow> ([LoadImage (path file)], Inl e)
           | Inr jpeg \<Rightarrow>
               (case rt_decodeImage rt jpeg of
                  Inl e \<Rightarrow> ([LoadImage (path file)], Inl e)
                | Inr decoded \<Rightarrow>
                    (let input = preprocess_srv (rt_f32_srv rt) decoded in
                     case model st of
                       None \<Rightarrow>
                         ([LoadImage (path file)],
                          Inl (Error ''Cannot read properties of undefined (reading predict)''))
                     | Some m \<Rightarrow>
                         (case m input of
                            Inl e \<Rightarrow> ([LoadImage (path file), Predict], Inl e)
                          | Inr data \<Rightarrow>
                              ([LoadImage (path file), Predict],
                               Inr (success_response_srv (rt_to_string_srv rt) st data)))))))"

text \<open>
  The handler of \<open>server.js\<close>: every exception is answered with status 500 and a fixed
  text; the \<open>finally\<close> deletes the upload if there is one and it exists.
\<close>

definition predict_handler_srv ::
  "runtime_srv \<Rightarrow> server_state \<Rightarrow> file_system \<Rightarrow> multer_file option \<Rightarrow>
   response \<times> file_system \<times> event list" where
  "predict_handler_srv rt st fs req_file =
     (let (events, outcome) = predict_try_srv rt st fs req_file;
          res = (case outcome of
                   Inr r \<Rightarrow> r
                 | Inl err \<Rightarrow> Text_response 500 ''Failed to process image.'')
      in case req_file of
           None \<Rightarrow> (res, fs, events)
         | Some file \<Rightarrow>
             if existsSync fs (path file)
             then (res, unlinkSync fs (path file), events @ [Unlink (path file)])
             else (res, fs, events))"

section \<open>Properties\<close>

subsection \<open>Decimal strings and the key order\<close>

lemma digit_val_digit_char: "d < 10 \<Longrightarrow> digit_val (digit_char d) = d"
  by (simp add: digit_val_def digit_char_def)

lemma is_digit_digit_char: "d < 10 \<Longrightarrow> is_digit (digit_char d)"
  by (simp add: is_digit_def digit_char_def)

lemma digits_val_snoc: "digits_val (s @ [c]) = 10 * digits_val s + digit_val c"
  by (simp add: digits_val_def)

lemma digits_val_show_nat: "digits_val (show_nat n) = n"
proof (induction n rule: show_nat.induct)
  case (1 n)
  show ?case
  proof (cases "n < 10")
    case True
    then show ?thesis
      by (subst show_nat.simps) (simp add: digits_val_def digit_val_digit_char)
  next
    case False
    with 1 have "digits_val (show_nat (n div 10)) = n div 10" by simp
    with False show ?thesis
      by (subst show_nat.simps) (simp add: digits_val_snoc digit_val_digit_char)
  qed
qed

lemma digit_string_show_nat: "digit_string (show_nat n)"
proof (induction n rule: show_nat.induct)
  case (1 n)
  show ?case
  proof (cases "n < 10")
    case True
    then show ?thesis
      by (subst show_nat.simps) (simp add: digit_string_def is_digit_digit_char)
  next
    case False
    with 1 have "digit_string (show_nat (n div 10))" by simp
    with False show ?thesis
      by (subst show_nat.simps) (simp add: digit_string_def is_digit_digit_char)
  qed
qed

lemma inj_show_nat: "inj show_nat"
  by (metis digits_val_show_nat injI)

lemma index_key_show_nat: "n \<le> 2 ^ 53 \<Longrightarrow> index_key (show_nat n)"
  by (simp add: index_key_def digit_string_show_nat digits_val_show_nat)

lemma is_positive_key_compare:
  "index_key a \<Longrightarrow> index_key b \<Longrightarrow> is_positive (key_compare a b) = (digits_val b < digits_val a)"
  by (simp add: key_compare_def to_number_def)

lemma sort_insert_insort_key:
  "index_key x \<Longrightarrow> list_all index_key ys \<Longrightarrow>
   sort_insert key_compare x ys = insort_key digits_val x ys"
  by (induction ys) (auto simp: is_positive_key_compare)

lemma list_all_insort_key: "list_all P (insort_key f x ys) = (P x \<and> list_all P ys)"
  by (induction ys) auto

lemma array_sort_sort_key:
  "list_all index_key ks \<Longrightarrow> array_sort key_compare ks = sort_key digits_val ks"
proof (induction ks)
  case Nil
  then show ?case by (simp add: array_sort_def)
next
  case (Cons k ks)
  then have ih: "foldr (sort_insert key_compare) ks [] = sort_key digits_val ks"
    by (simp add: array_sort_def)
  have "list_all index_key (sort_key digits_val ks)"
    using Cons.prems by (simp add: list_all_iff)
  with Cons.prems ih show ?case
    by (simp add: array_sort_def sort_insert_insort_key)
qed

subsection \<open>Objects\<close>

lemma obj_insert_split: "\<exists>as bs. ps = as @ bs \<and> obj_insert k v ps = as @ (k, v) # bs"
proof (induction ps)
  case Nil
  then show ?case by simp
next
  case (Cons p ps)
  then obtain as bs where ih: "ps = as @ bs" "obj_insert k v ps = as @ (k, v) # bs" by blast
  obtain k' v' where p: "p = (k', v')" by (cases p)
  have here: "p # ps = [] @ (p # ps) \<and> (k, v) # p # ps = [] @ (k, v) # (p # ps)" by simp
  have later: "p # ps = (p # as) @ bs \<and> p # obj_insert k v ps = (p # as) @ (k, v) # bs"
    using ih by simp
  have "obj_insert k v (p # ps) = (k, v) # p # ps \<or> obj_insert k v (p # ps) = p # obj_insert k v ps"
    by (simp add: p split: option.splits)
  then show ?case
    using here later by metis
qed

lemma keys_obj_insert: "fst ` set (obj_insert k v ps) = insert k (fst ` set ps)"
proof -
  obtain as bs where "ps = as @ bs" "obj_insert k v ps = as @ (k, v) # bs"
    using obj_insert_split [of ps k v] by blast
  then show ?thesis by auto
qed

lemma distinct_obj_insert:
  assumes "k \<notin> fst ` set ps" "distinct (map fst ps)"
  shows "distinct (map fst (obj_insert k v ps))"
proof -
  obtain as bs where "ps = as @ bs" "obj_insert k v ps = as @ (k, v) # bs"
    using obj_insert_split [of ps k v] by blast
  with assms show ?thesis by auto
qed

lemma obj_insert_Cons:
  "obj_insert k v (p # ps) = (k, v) # p # ps \<or> obj_insert k v (p # ps) = p # obj_insert k v ps"
  by (cases p) (simp split: option.splits)

lemma map_of_obj_insert:
  "k \<notin> fst ` set ps \<Longrightarrow> map_of (obj_insert k v ps) = (map_of ps)(k \<mapsto> v)"
proof (induction ps)
  case Nil
  then show ?case by simp
next
  case (Cons p ps)
  obtain k' v' where p: "p = (k', v')" by (cases p)
  from Cons.prems p have new: "k \<notin> fst ` set ps" and ne: "k' \<noteq> k" by auto
  have ih: "map_of (obj_insert k v ps) = (map_of ps)(k \<mapsto> v)"
    using Cons.IH new by blast
  consider "obj_insert k v (p # ps) = (k, v) # p # ps"
    | "obj_insert k v (p # ps) = p # obj_insert k v ps"
    using obj_insert_Cons [of k v p ps] by blast
  then show ?case
  proof cases
    case 1
    then show ?thesis by (simp only: map_of.simps fst_conv snd_conv)
  next
    case 2
    have "map_of (p # obj_insert k v ps) = ((map_of ps)(k \<mapsto> v))(k' \<mapsto> v')"
      by (simp only: p map_of.simps fst_conv snd_conv ih)
    also have "\<dots> = ((map_of ps)(k' \<mapsto> v'))(k \<mapsto> v)"
      using ne by (rule fun_upd_twist [symmetric])
    finally have chain: "map_of (p # obj_insert k v ps) = ((map_of ps)(k' \<mapsto> v'))(k \<mapsto> v)" .
    have rhs: "map_of (p # ps) = (map_of ps)(k' \<mapsto> v')" by (simp add: p)
    show ?thesis
      using chain by (simp only: 2 rhs)
  qed
qed

lemma keys_obj_update:
  "map fst (map (\<lambda>(k', v'). if k' = k then (k', v) else (k', v')) ps) = map fst ps"
  by (induction ps) auto

lemma map_of_obj_update_other:
  "x \<noteq> k \<Longrightarrow>
   map_of (map (\<lambda>(k', v'). if k' = k then (k', v) else (k', v')) ps) x = map_of ps x"
  by (induction ps) auto

lemma map_of_obj_update_same:
  "k \<in> fst ` set ps \<Longrightarrow>
   map_of (map (\<lambda>(k', v'). if k' = k then (k', v) else (k', v')) ps) k = Some v"
  by (induction ps) auto

lemma map_of_obj_update:
  assumes "k \<in> fst ` set ps"
  shows "map_of (map (\<lambda>(k', v'). if k' = k then (k', v) else (k', v')) ps) = (map_of ps)(k \<mapsto> v)"
proof (rule ext)
  fix x
  show "map_of (map (\<lambda>(k', v'). if k' = k then (k', v) else (k', v')) ps) x = ((map_of ps)(k \<mapsto> v)) x"
    using assms by (cases "x = k") (simp_all add: map_of_obj_update_other map_of_obj_update_same)
qed

lemma keys_obj_put: "fst ` set (obj_put k v ps) = insert k (fst ` set ps)"
proof (cases "k \<in> fst ` set ps")
  case True
  have "set (map fst (map (\<lambda>(k', v'). if k' = k then (k', v) else (k', v')) ps)) = set (map fst ps)"
    by (simp only: keys_obj_update)
  then have "fst ` set (map (\<lambda>(k', v'). if k' = k then (k', v) else (k', v')) ps) = fst ` set ps"
    by (simp only: set_map)
  moreover have "obj_put k v ps = map (\<lambda>(k', v'). if k' = k then (k', v) else (k', v')) ps"
    using True by (simp add: obj_put_def)
  ultimately show ?thesis
    using True by (simp only: insert_absorb)
next
  case False
  then show ?thesis by (simp add: obj_put_def keys_obj_insert)
qed

lemma distinct_obj_put: "distinct (map fst ps) \<Longrightarrow> distinct (map fst (obj_put k v ps))"
  by (simp add: obj_put_def distinct_obj_insert keys_obj_update del: map_map)

lemma map_of_obj_put: "map_of (obj_put k v ps) = (map_of ps)(k \<mapsto> v)"
  by (simp add: obj_put_def map_of_obj_insert map_of_obj_update del: map_map)

lemma foldl_obj_put:
  "distinct (map fst ob) \<Longrightarrow>
   distinct (map fst (foldl (\<lambda>ob (k, v). obj_put k v ob) ob ms)) \<and>
   fst ` set (foldl (\<lambda>ob (k, v). obj_put k v ob) ob ms) = fst ` set ob \<union> fst ` set ms \<and>
   map_of (foldl (\<lambda>ob (k, v). obj_put k v ob) ob ms) = map_of ob ++ map_of (rev ms)"
proof (induction ms arbitrary: ob)
  case Nil
  then show ?case by simp
next
  case (Cons m ms)
  obtain k v where m: "m = (k, v)" by (cases m)
  let ?F = "\<lambda>ob (k, v). obj_put k v ob"
  have d: "distinct (map fst (obj_put k v ob))"
    using Cons.prems by (rule distinct_obj_put)
  have step: "foldl ?F ob (m # ms) = foldl ?F (obj_put k v ob) ms"
    by (simp add: m)
  have keys: "fst ` set (obj_put k v ob) \<union> fst ` set ms = fst ` set ob \<union> fst ` set (m # ms)"
    by (simp add: keys_obj_put m)
  have "(map_of ob ++ map_of (rev (m # ms))) x = ((map_of ob)(k \<mapsto> v) ++ map_of (rev ms)) x" for x
    by (cases "map_of (rev ms) x") (simp_all add: m map_add_def)
  then have vals: "map_of (obj_put k v ob) ++ map_of (rev ms) = map_of ob ++ map_of (rev (m # ms))"
    unfolding map_of_obj_put by (intro ext) (rule sym)
  from Cons.IH [OF d] show ?case
    unfolding step keys vals .
qed

lemma json_parse_object_props:
  "distinct (object_keys (json_parse_object ms))"
  "set (object_keys (json_parse_object ms)) = fst ` set ms"
  "obj_get (json_parse_object ms) k = map_of (rev ms) k"
  using foldl_obj_put [of "[]" ms]
  by (simp_all add: json_parse_object_def object_keys_def obj_get_def)

subsection \<open>The label list\<close>

lemma build_labels_sort_key:
  assumes "list_all index_key (object_keys ob)"
  shows "build_labels ob = map (obj_get ob) (sort_key digits_val (object_keys ob))"
  using assms by (simp add: build_labels_def array_sort_sort_key)

lemma sorted_keys_upt:
  assumes d: "distinct ks" and s: "set ks = show_nat ` {0..<n}"
  shows "sort_key digits_val ks = map show_nat [0..<n]"
proof (rule map_sorted_distinct_set_unique [where f = digits_val])
  have inj: "inj_on digits_val (show_nat ` {0..<n})"
    by (rule inj_onI) (auto simp: digits_val_show_nat)
  show "inj_on digits_val (set (sort_key digits_val ks) \<union> set (map show_nat [0..<n]))"
    using inj s by simp
  show "sorted (map digits_val (sort_key digits_val ks))"
    by (rule sorted_sort_key)
  show "distinct (map digits_val (sort_key digits_val ks))"
    using inj d s by (simp add: distinct_map)
  have m: "map digits_val (map show_nat [0..<n]) = [0..<n]"
    by (simp add: digits_val_show_nat comp_def)
  show "sorted (map digits_val (map show_nat [0..<n]))"
    unfolding m by (rule sorted_upt)
  show "distinct (map digits_val (map show_nat [0..<n]))"
    unfolding m by (rule distinct_upt)
  show "set (sort_key digits_val ks) = set (map show_nat [0..<n])"
    using s by simp
qed

lemma build_labels_contiguous:
  assumes "distinct (object_keys ob)" and "set (object_keys ob) = show_nat ` {0..<n}"
    and "list_all index_key (object_keys ob)"
  shows "build_labels ob = map (\<lambda>i. obj_get ob (show_nat i)) [0..<n]"
proof -
  from assms(3) have "build_labels ob = map (obj_get ob) (sort_key digits_val (object_keys ob))"
    by (rule build_labels_sort_key)
  also have "sort_key digits_val (object_keys ob) = map show_nat [0..<n]"
    using assms(1,2) by (rule sorted_keys_upt)
  finally show ?thesis by (simp add: comp_def)
qed

lemma map_of_rev_distinct: "distinct (map fst xs) \<Longrightarrow> map_of (rev xs) = map_of xs"
  by (subst map_of_inject_set) (simp_all add: rev_map [symmetric])

lemma map_of_enumerate_nth: "i < length xs \<Longrightarrow> map_of (enumerate 0 xs) i = Some (xs ! i)"
  using map_of_zip_nth [of "[0..<length xs]" xs i] by (simp add: enumerate_eq_zip)

lemma train_class_indices_props:
  "distinct (object_keys (train_class_indices names))"
  "set (object_keys (train_class_indices names)) = show_nat ` {0..<length names}"
  "i < length names \<Longrightarrow> obj_get (train_class_indices names) (show_nat i) = Some (names ! i)"
proof -
  define ms where "ms = map (\<lambda>(i, label). (show_nat i, label)) (enumerate 0 names)"
  have fold: "train_class_indices names = foldl (\<lambda>ob (k, v). obj_put k v ob) [] ms"
    by (simp add: train_class_indices_def ms_def foldl_map split_def)
  have e: "map fst (enumerate 0 names) = [0..<length names]"
    by (simp add: map_fst_enumerate)
  have "map fst ms = map show_nat (map fst (enumerate 0 names))"
    unfolding ms_def map_map by (rule map_cong) auto
  then have keys: "map fst ms = map show_nat [0..<length names]"
    unfolding e .
  have dk: "distinct (map fst ms)"
    unfolding keys using inj_show_nat by (simp add: distinct_map inj_on_def)
  have props: "distinct (map fst (train_class_indices names))"
     "fst ` set (train_class_indices names) = fst ` set ms"
     "map_of (train_class_indices names) = map_of (rev ms)"
    using foldl_obj_put [of "[]" ms] by (simp_all add: fold)
  show "distinct (object_keys (train_class_indices names))"
    using props(1) by (simp add: object_keys_def)
  have "set (map fst ms) = show_nat ` {0..<length names}"
    unfolding keys by simp
  then show "set (object_keys (train_class_indices names)) = show_nat ` {0..<length names}"
    using props(2) by (simp add: object_keys_def)
  assume i: "i < length names"
  have "map_of (rev ms) (show_nat i) = map_of ms (show_nat i)"
    using dk by (simp only: map_of_rev_distinct)
  also have "\<dots> = Some (names ! i)"
    unfolding ms_def
    by (rule map_of_mapk_SomeI [OF inj_show_nat]) (rule map_of_enumerate_nth [OF i])
  finally show "obj_get (train_class_indices names) (show_nat i) = Some (names ! i)"
    using props(3) by (simp add: obj_get_def)
qed

subsection \<open>Weight loading\<close>

lemma read_shards_present:
  "map (\<lambda>p. fs (model_path p)) shardPaths = map Some shards \<Longrightarrow>
   read_shards fs model_path shardPaths = (map model_path shardPaths, Inr shards)"
proof (induction shardPaths arbitrary: shards)
  case Nil
  then show ?case by simp
next
  case (Cons p ps)
  then obtain b bs where s: "shards = b # bs" and b: "fs (model_path p) = Some b"
    and bs: "map (\<lambda>p. fs (model_path p)) ps = map Some bs"
    by (cases shards) auto
  from Cons.IH [OF bs] b show ?case
    by (simp add: s readFileSync_def)
qed

lemma read_shards_missing:
  "(\<exists>p \<in> set shardPaths. fs (model_path p) = None) \<Longrightarrow>
   \<exists>reads e. read_shards fs model_path shardPaths = (reads, Inl e)"
proof (induction shardPaths)
  case Nil
  then show ?case by simp
next
  case (Cons p ps)
  show ?case
  proof (cases "fs (model_path p)")
    case None
    then show ?thesis by (simp add: readFileSync_def)
  next
    case (Some b)
    with Cons.prems have "\<exists>p \<in> set ps. fs (model_path p) = None" by auto
    then obtain reads e where "read_shards fs model_path ps = (reads, Inl e)"
      using Cons.IH by blast
    with Some show ?thesis by (simp add: readFileSync_def)
  qed
qed

lemma slice_of_view:
  "array_buffer_slice (before @ bytes @ after) (length before) (length before + length bytes) = bytes"
  by (simp add: array_buffer_slice_def Let_def)

subsection \<open>Preprocessing\<close>

lemma length_concat_map_const:
  "(\<And>i. i < n \<Longrightarrow> length (f i) = k) \<Longrightarrow> length (concat (map f [0..<n])) = n * k"
  by (induction n) simp_all

lemma nth_concat_map_upt:
  assumes "\<And>i. i < n \<Longrightarrow> length (f i) = k" and "i < n" and "j < k"
  shows "concat (map f [0..<n]) ! (i * k + j) = f i ! j"
  using assms
proof (induction n)
  case 0
  then show ?case by simp
next
  case (Suc n)
  have len: "length (concat (map f [0..<n])) = n * k"
    using Suc.prems(1) by (intro length_concat_map_const) simp
  show ?case
  proof (cases "i < n")
    case True
    then have "i * k + j < n * k"
      using Suc.prems(3)
      by (metis Suc_leI add_less_cancel_left le_trans linorder_not_less mult_Suc mult_le_mono1 add.commute)
    moreover have "concat (map f [0..<n]) ! (i * k + j) = f i ! j"
      using Suc.IH Suc.prems True by simp
    ultimately show ?thesis
      by (simp add: nth_append len)
  next
    case False
    with Suc.prems(2) have "i = n" by simp
    then show ?thesis
      by (simp add: nth_append len)
  qed
qed

lemma fromPixels_shape: "shape (fromPixels cv) = [height cv, width cv, 3]"
  by (simp add: fromPixels_def)

lemma length_pixel_row:
  "length (concat (map (\<lambda>x. (case pixel cv x y of (r, g, b, a) \<Rightarrow> [uint r, uint g, uint b])) [0..<width cv]))
     = width cv * 3"
  by (rule length_concat_map_const) (simp split: prod.splits)

lemma fromPixels_length: "length (vals (fromPixels cv)) = height cv * (width cv * 3)"
  unfolding fromPixels_def tensor.simps
  by (rule length_concat_map_const) (rule length_pixel_row)

lemma fromPixels_range: "list_all (\<lambda>v. 0 \<le> v \<and> v \<le> 255) (vals (fromPixels cv))"
proof -
  have "0 \<le> uint b \<and> uint b \<le> 255" for b :: byte
    using uint_bounded [of b] by simp
  then show ?thesis
    by (auto simp: fromPixels_def list_all_iff split: prod.splits)
qed

lemma fromPixels_at:
  assumes "x < width cv" and "y < height cv" and "ch < 3"
  shows "vals (fromPixels cv) ! ((y * width cv + x) * 3 + ch)
           = (case pixel cv x y of (r, g, b, a) \<Rightarrow> [uint r, uint g, uint b]) ! ch"
proof -
  let ?px = "\<lambda>y x. (case pixel cv x y of (r, g, b, a) \<Rightarrow> [uint r, uint g, uint b])"
  let ?row = "\<lambda>y. concat (map (?px y) [0..<width cv])"
  have "x * 3 + ch < width cv * 3"
    using assms(1,3) by simp
  then have "concat (map ?row [0..<height cv]) ! (y * (width cv * 3) + (x * 3 + ch)) = ?row y ! (x * 3 + ch)"
    using assms(2) by (intro nth_concat_map_upt length_pixel_row)
  also have "\<dots> = ?px y x ! ch"
    using assms(1,3) by (intro nth_concat_map_upt) (simp_all split: prod.splits)
  finally show ?thesis
    by (simp add: fromPixels_def algebra_simps)
qed

lemma normalize_shape: "shape (normalize f32 t) = 1 # shape t"
  by (simp add: normalize_def expandDims_def div_scalar_def toFloat_def)

lemma normalize_vals: "vals (normalize f32 t) = map (\<lambda>c. f32 (of_int c / 255)) (vals t)"
  by (simp add: normalize_def expandDims_def div_scalar_def toFloat_def comp_def)

lemma rounding_unit:
  assumes "rounding f32" and "0 \<le> c" and "c \<le> (255::int)"
  shows "0 \<le> f32 (of_int c / 255) \<and> f32 (of_int c / 255) \<le> 1"
proof -
  have m: "mono f32" and z: "f32 0 = 0" and o: "f32 1 = 1"
    using assms(1) by (simp_all add: rounding_def)
  have "(0::rat) \<le> of_int c / 255" using assms(2) by simp
  with m have "f32 0 \<le> f32 (of_int c / 255)" by (rule monoD)
  moreover have "of_int c / 255 \<le> (1::rat)" using assms(3) by simp
  with m have "f32 (of_int c / 255) \<le> f32 1" by (rule monoD)
  ultimately show ?thesis by (simp add: z o)
qed

lemma normalize_range:
  assumes "rounding f32" and "list_all (\<lambda>v. 0 \<le> v \<and> v \<le> 255) (vals t)"
  shows "list_all (\<lambda>v. 0 \<le> v \<and> v \<le> 1) (vals (normalize f32 t))"
  using assms by (auto simp: normalize_vals list_all_iff dest: rounding_unit)

lemma sample_index_bound:
  assumes "r < nr" and "c < nc" and "ch < chs"
  shows "(r * nc + c) * chs + ch < nr * nc * (chs::nat)"
proof -
  have "r * nc + c < r * nc + nc" using assms(2) by simp
  also have "\<dots> = Suc r * nc" by simp
  also have "\<dots> \<le> nr * nc" using assms(1) by (intro mult_le_mono1) simp
  finally have "Suc (r * nc + c) \<le> nr * nc" by simp
  then have "Suc (r * nc + c) * chs \<le> nr * nc * chs" by (rule mult_le_mono1)
  moreover have "(r * nc + c) * chs + ch < Suc (r * nc + c) * chs"
    using assms(3) by simp
  ultimately show ?thesis by linarith
qed

lemma resize_range:
  assumes "decoded_image im"
  shows "list_all (\<lambda>v. 0 \<le> v \<and> v \<le> 255) (samples (resizeNearestNeighbor newHeight newWidth im))"
proof -
  have pos: "0 < rows im" "0 < cols im"
    and len: "length (samples im) = rows im * cols im * channels im"
    and rng: "\<And>v. v \<in> set (samples im) \<Longrightarrow> 0 \<le> v \<and> v \<le> 255"
    using assms by (simp_all add: decoded_image_def list_all_iff)
  have "0 \<le> samples im ! ((min (rows im - 1) r * cols im + min (cols im - 1) c) * channels im + ch)
        \<and> samples im ! ((min (rows im - 1) r * cols im + min (cols im - 1) c) * channels im + ch) \<le> 255"
    if "ch < channels im" for r c ch
  proof (rule rng, rule nth_mem)
    have "min (rows im - 1) r < rows im" "min (cols im - 1) c < cols im"
      using pos by simp_all
    then show "(min (rows im - 1) r * cols im + min (cols im - 1) c) * channels im + ch
                 < length (samples im)"
      unfolding len using that by (rule sample_index_bound)
  qed
  then show ?thesis
    by (auto simp: resizeNearestNeighbor_def list_all_iff)
qed

lemma resize_shape:
  "shape (as_tensor (resizeNearestNeighbor newHeight newWidth im)) = [newHeight, newWidth, channels im]"
  by (simp add: as_tensor_def resizeNearestNeighbor_def)

lemma resize_length:
  "length (samples (resizeNearestNeighbor newHeight newWidth im)) = newHeight * (newWidth * channels im)"
  unfolding resizeNearestNeighbor_def image_tensor.simps
  by (intro length_concat_map_const) simp

subsection \<open>Class index\<close>

lemma strict_eq_iff: "v \<noteq> NaN \<Longrightarrow> strict_eq x v = (x = v)"
  by (cases x; cases v) auto

lemma num_less_total: "a \<noteq> NaN \<Longrightarrow> b \<noteq> NaN \<Longrightarrow> num_less a b \<or> a = b \<or> num_less b a"
  by (cases a; cases b) auto

lemma num_less_irrefl: "\<not> num_less a a"
  by (cases a) auto

lemma not_less_trans:
  "b \<noteq> NaN \<Longrightarrow> \<not> num_less b a \<Longrightarrow> \<not> num_less c b \<Longrightarrow> \<not> num_less c a"
  by (cases a; cases b; cases c) auto

lemma foldl_max:
  fixes step :: "number \<Rightarrow> number \<Rightarrow> number"
  defines "step \<equiv> \<lambda>highest x. if highest = NaN \<or> x = NaN then NaN
                          else if num_less highest x then x else highest"
  assumes "acc \<noteq> NaN" and "NaN \<notin> set xs"
  shows "foldl step acc xs \<in> insert acc (set xs) \<and> foldl step acc xs \<noteq> NaN
         \<and> \<not> num_less (foldl step acc xs) acc
         \<and> (\<forall>x \<in> set xs. \<not> num_less (foldl step acc xs) x)"
  using assms(2,3)
proof (induction xs arbitrary: acc)
  case Nil
  then show ?case by (simp add: num_less_irrefl)
next
  case (Cons x xs)
  let ?acc = "step acc x"
  let ?r = "foldl step ?acc xs"
  from Cons.prems have x: "x \<noteq> NaN" and xs: "NaN \<notin> set xs" by auto
  have acc': "?acc = (if num_less acc x then x else acc)"
    using Cons.prems(1) x by (simp add: step_def)
  then have n: "?acc \<noteq> NaN" using Cons.prems(1) x by simp
  from Cons.IH [OF n xs]
  have ih: "?r \<in> insert ?acc (set xs)" "?r \<noteq> NaN" "\<not> num_less ?r ?acc"
    "\<forall>y \<in> set xs. \<not> num_less ?r y" by blast+
  have ge_acc: "\<not> num_less ?acc acc"
    using acc' Cons.prems(1) x num_less_total [of acc x]
    by (cases "num_less acc x") (auto simp: num_less_irrefl elim: num_less.elims)
  have ge_x: "\<not> num_less ?acc x"
    using acc' by (simp add: num_less_irrefl)
  have 1: "\<not> num_less ?r acc"
    using n ge_acc ih(3) by (rule not_less_trans)
  have 2: "\<not> num_less ?r x"
    using n ge_x ih(3) by (rule not_less_trans)
  have 3: "?r \<in> insert acc (set (x # xs))"
    using ih(1) acc' by (auto split: if_splits)
  from 1 2 3 ih(2,4) show ?case by simp
qed

lemma math_max_props:
  assumes "data \<noteq> []" and "NaN \<notin> set data"
  shows "math_max data \<in> set data" and "math_max data \<noteq> NaN"
    and "\<forall>x \<in> set data. \<not> num_less (math_max data) x"
proof -
  have f: "math_max data \<in> insert NegInf (set data) \<and> math_max data \<noteq> NaN
      \<and> \<not> num_less (math_max data) NegInf
      \<and> (\<forall>x \<in> set data. \<not> num_less (math_max data) x)"
    unfolding math_max_def using assms(2) by (intro foldl_max) simp_all
  then show "math_max data \<noteq> NaN" and "\<forall>x \<in> set data. \<not> num_less (math_max data) x"
    by blast+
  show "math_max data \<in> set data"
  proof (cases "math_max data = NegInf")
    case False
    with f show ?thesis by blast
  next
    case True
    from assms(1) obtain x where x: "x \<in> set data" by (cases data) auto
    with f True have "\<not> num_less NegInf x" by simp
    moreover from x assms(2) have "x \<noteq> NaN" by auto
    ultimately have "x = NegInf" by (cases x) auto
    with x True show ?thesis by simp
  qed
qed

lemma index_from_first:
  "v \<in> set xs \<Longrightarrow> v \<noteq> NaN \<Longrightarrow>
   \<exists>k < length xs. index_from i xs v = i + int k \<and> xs ! k = v \<and> (\<forall>j < k. xs ! j \<noteq> v)"
proof (induction xs arbitrary: i)
  case Nil
  then show ?case by simp
next
  case (Cons x xs)
  show ?case
  proof (cases "x = v")
    case True
    then have "index_from i (x # xs) v = i + int 0 \<and> (x # xs) ! 0 = v \<and> (\<forall>j < 0. (x # xs) ! j \<noteq> v)"
      using Cons.prems(2) by (simp add: strict_eq_iff)
    then show ?thesis by blast
  next
    case False
    with Cons.prems have "v \<in> set xs" by simp
    from Cons.IH [OF this Cons.prems(2), of "i + 1"]
    obtain k where k: "k < length xs" "index_from (i + 1) xs v = i + 1 + int k" "xs ! k = v"
      "\<forall>j < k. xs ! j \<noteq> v" by blast
    have "\<forall>j < Suc k. (x # xs) ! j \<noteq> v"
    proof (intro allI impI)
      fix j assume "j < Suc k"
      then show "(x # xs) ! j \<noteq> v"
        using False k(4) by (cases j) simp_all
    qed
    moreover have "index_from i (x # xs) v = i + int (Suc k)"
      using False k(2) Cons.prems(2) by (simp add: strict_eq_iff)
    moreover have "Suc k < length (x # xs)" "(x # xs) ! Suc k = v"
      using k(1,3) by simp_all
    ultimately show ?thesis by blast
  qed
qed

lemma max_index_first_maximum:
  assumes "data \<noteq> []" and "NaN \<notin> set data"
  shows "\<exists>k < length data. max_index data = int k
          \<and> (\<forall>j < length data. \<not> num_less (data ! k) (data ! j))
          \<and> (\<forall>j < k. num_less (data ! j) (data ! k))"
proof -
  note m = math_max_props [OF assms]
  from index_from_first [OF m(1) m(2), of 0]
  obtain k where k: "k < length data" "index_from 0 data (math_max data) = int k"
    "data ! k = math_max data" "\<forall>j < k. data ! j \<noteq> math_max data" by auto
  have ge: "\<forall>j < length data. \<not> num_less (data ! k) (data ! j)"
    using m(3) k(3) by simp
  have "num_less (data ! j) (data ! k)" if "j < k" for j
  proof -
    from that k(1) have j: "j < length data" by simp
    then have "data ! j \<noteq> NaN" using assms(2) by (metis nth_mem)
    moreover have "data ! k \<noteq> NaN" using m(2) k(3) by simp
    moreover have "data ! j \<noteq> data ! k" using k(3,4) that by simp
    moreover have "\<not> num_less (data ! k) (data ! j)" using ge j by simp
    ultimately show ?thesis using num_less_total by blast
  qed
  with k ge show ?thesis
    by (auto simp: max_index_def indexOf_def)
qed

subsection \<open>Confidence\<close>

lemma digit_char_0: "digit_char 0 = CHR ''0''"
  by code_simp

lemma show_nat_small: "n < 10 \<Longrightarrow> show_nat n = [digit_char n]"
  by (subst show_nat.simps) simp

lemma show_nat_step: "10 \<le> n \<Longrightarrow> show_nat n = show_nat (n div 10) @ [digit_char (n mod 10)]"
  by (subst show_nat.simps) simp

lemma show_nat_nonempty: "show_nat n \<noteq> []"
  by (subst show_nat.simps) simp

lemma fixed2_digits_eq:
  "fixed2_digits n = show_nat (n div 100) @ ''.'' @ [digit_char (n div 10 mod 10), digit_char (n mod 10)]"
proof -
  consider "n < 10" | "10 \<le> n" "n < 100" | "100 \<le> n" by linarith
  then show ?thesis
  proof cases
    case 1
    then have "show_nat n = [digit_char n]" by (rule show_nat_small)
    moreover have "show_nat (n div 100) = ''0''" using 1 by (simp add: show_nat_small digit_char_0)
    ultimately show ?thesis
      using 1 by (simp add: fixed2_digits_def digit_char_0 numeral_3_eq_3)
  next
    case 2
    then have "show_nat n = [digit_char (n div 10), digit_char (n mod 10)]"
      by (simp add: show_nat_step show_nat_small)
    moreover have "show_nat (n div 100) = ''0''" using 2 by (simp add: show_nat_small digit_char_0)
    ultimately show ?thesis
      using 2 by (simp add: fixed2_digits_def)
  next
    case 3
    then have a: "10 \<le> n div 10" by simp
    have d: "n div 10 div 10 = n div 100" by (simp add: div_mult2_eq)
    have s: "show_nat n = show_nat (n div 100) @ [digit_char (n div 10 mod 10), digit_char (n mod 10)]"
      using 3 a by (simp add: show_nat_step [of n] show_nat_step [of "n div 10"] d)
    have l: "length (show_nat (n div 100)) > 0" using show_nat_nonempty by simp
    show ?thesis
      using 3 l unfolding fixed2_digits_def Let_def s by simp
  qed
qed

lemma nearest_hundredth_round: "0 \<le> x \<Longrightarrow> int (nearest_hundredth x) = round (x * 100)"
  by (simp add: nearest_hundredth_def round_def)

lemma probability_cases: "probability x \<Longrightarrow> \<exists>p. x = Fin p \<and> 0 \<le> p \<and> p \<le> 1"
  by (cases x) auto

lemma element_at_nth: "k < length xs \<Longrightarrow> element_at xs (int k) = Some (xs ! k)"
  by (simp add: element_at_def)

subsection \<open>The prediction endpoint\<close>

lemma unlink_removes:
  "\<not> existsSync (unlinkSync fs p) p" "q \<noteq> p \<Longrightarrow> unlinkSync fs p q = fs q"
  by (simp_all add: existsSync_def unlinkSync_def)

lemma predict_handler_fs:
  "fst (snd (predict_handler rt st fs (Some file)))
     = (if existsSync fs (path file) then unlinkSync fs (path file) else fs)"
  by (simp add: predict_handler_def Let_def split: prod.splits)

lemma predict_handler_srv_fs:
  "fst (snd (predict_handler_srv rt st fs (Some file)))
     = (if existsSync fs (path file) then unlinkSync fs (path file) else fs)"
  by (simp add: predict_handler_srv_def Let_def split: prod.splits)

lemma element_at_outside:
  "maxIdx < 0 \<or> int (length xs) \<le> maxIdx \<Longrightarrow> element_at xs maxIdx = None"
  by (auto simp: element_at_def)

lemma object_literal_response:
  "object_literal [(''status'', a), (''label'', b), (''confidence'', c), (''solution'', d), (''pesticide'', e)]
     = [(''status'', a), (''label'', b), (''confidence'', c), (''solution'', d), (''pesticide'', e)]"
  by (simp add: object_literal_def obj_put_def array_index_def digit_string_def is_digit_def)

lemma remedy_info_lookup:
  assumes "label \<notin> set object_prototype_keys"
  shows "remedy_info catalog label =
           (case obj_get catalog label of
              Some entry \<Rightarrow> if truthy (Json entry) then Json entry else default_info label
            | None \<Rightarrow> default_info label)"
    and "remedy_info_srv catalog label =
           (case obj_get catalog label of
              Some entry \<Rightarrow> if truthy (Json entry) then Json entry else default_info_srv
            | None \<Rightarrow> default_info_srv)"
  using assms
  by (simp_all add: remedy_info_def remedy_info_srv_def get_property_def Let_def split: option.splits)

lemma default_info_fields:
  "get_field (default_info label) ''solution'' = Json (JStr ''Use proper fertilizers and care.'')"
  "get_field (default_info label) ''pesticide'' = Json (JStr ''Apply recommended pesticide.'')"
  "get_field default_info_srv ''solution'' = Json (JStr ''General care needed.'')"
  "get_field default_info_srv ''pesticide'' = Json (JStr ''Use appropriate pesticide.'')"
  by (simp_all add: get_field_def default_info_def default_info_srv_def obj_get_def)




section \<open>Claims\<close>

text \<open>
  Claim C1, label order. For a class-index file whose keys are index keys (decimal digit
  strings), the label list is the list of the stored values read in ascending numeric key
  order, whatever the order of the members in the file: it is \<open>classIndices[key]\<close> mapped
  over the stable numeric sort of the keys, which lists every key of the file once; every
  label is defined. When the keys are exactly \<open>"0"\<close>, ..., \<open>"n-1"\<close>, the label at
  position \<open>i\<close> is the value stored under key \<open>i\<close>. The file
  \<open>{"2":"C","0":"A","1":"B"}\<close> gives \<open>["A","B","C"]\<close>.
\<close>

theorem label_list_numeric_key_order:
  assumes "list_all index_key (map fst members)"
  shows "(let classIndices = json_parse_object members;
              keys = sort_key digits_val (object_keys classIndices)
          in build_labels classIndices = map (obj_get classIndices) keys
           \<and> sorted (map digits_val keys)
           \<and> distinct keys
           \<and> set keys = fst ` set members
           \<and> list_all (\<lambda>label. label \<noteq> None) (build_labels classIndices)
           \<and> (fst ` set members = show_nat ` {0..<n} \<longrightarrow>
                build_labels classIndices = map (\<lambda>i. obj_get classIndices (show_nat i)) [0..<n]))
         \<and> build_labels (json_parse_object [(''2'', ''C''), (''0'', ''A''), (''1'', ''B'')])
             = [Some ''A'', Some ''B'', Some ''C'']"
proof -
  define classIndices where "classIndices = json_parse_object members"
  define keys where "keys = sort_key digits_val (object_keys classIndices)"
  have ks: "set (object_keys classIndices) = fst ` set members"
    and dk: "distinct (object_keys classIndices)"
    unfolding classIndices_def by (rule json_parse_object_props)+
  have ik: "list_all index_key (object_keys classIndices)"
    using assms ks by (simp add: list_all_iff)
  have 1: "build_labels classIndices = map (obj_get classIndices) keys"
    unfolding keys_def using ik by (rule build_labels_sort_key)
  have 2: "sorted (map digits_val keys)"
    unfolding keys_def by (rule sorted_sort_key)
  have 3: "distinct keys"
    unfolding keys_def using dk by simp
  have 4: "set keys = fst ` set members"
    unfolding keys_def using ks by simp
  have "obj_get classIndices k \<noteq> None" if "k \<in> set keys" for k
  proof -
    from that 4 have "k \<in> fst ` set (rev members)" by simp
    then have "map_of (rev members) k \<noteq> None"
      by (simp only: map_of_eq_None_iff not_not)
    then show ?thesis
      unfolding classIndices_def by (simp add: json_parse_object_props(3))
  qed
  then have 5: "list_all (\<lambda>label. label \<noteq> None) (build_labels classIndices)"
    unfolding 1 by (simp add: list_all_iff)
  have 6: "build_labels classIndices = map (\<lambda>i. obj_get classIndices (show_nat i)) [0..<n]"
    if "fst ` set members = show_nat ` {0..<n}"
    using dk _ ik by (rule build_labels_contiguous) (simp add: ks that)
  have 7: "build_labels (json_parse_object [(''2'', ''C''), (''0'', ''A''), (''1'', ''B'')])
             = [Some ''A'', Some ''B'', Some ''C'']"
    by code_simp
  from 1 2 3 4 5 6 7 show ?thesis
    unfolding Let_def classIndices_def [symmetric] keys_def [symmetric] by blast
qed

theorem label_list_numeric_key_order_witness:
  "list_all index_key (map fst [(''2'', ''C''), (''0'', ''A''), (''1'', ''B'')])
   \<and> fst ` set [(''2'', ''C''), (''0'', ''A''), (''1'', ''B'')] = show_nat ` {0..<3}
   \<and> build_labels (json_parse_object [(''2'', ''C''), (''0'', ''A''), (''1'', ''B'')])
       = map (\<lambda>i. obj_get (json_parse_object [(''2'', ''C''), (''0'', ''A''), (''1'', ''B'')]) (show_nat i)) [0..<3]"
proof -
  have h: "list_all index_key (map fst [(''2'', ''C''), (''0'', ''A''), (''1'', ''B'')])"
    by code_simp
  have u: "{0..<3::nat} = {0, 1, 2}" by auto
  have sn: "show_nat 0 = ''0''" "show_nat (Suc 0) = ''1''" "show_nat 2 = ''2''"
    by code_simp+
  have s: "fst ` set [(''2'', ''C''), (''0'', ''A''), (''1'', ''B'')] = show_nat ` {0..<3}"
    unfolding u by (auto simp: sn)
  from label_list_numeric_key_order [OF h, of 3] s h show ?thesis
    unfolding Let_def by blast
qed

text \<open>
  Claim C1 as first stated asks, for every class-index mapping, that the label at position
  \<open>i\<close> be the value stored under the numeric key \<open>i\<close>. With a gap in the keys this
  fails: the file \<open>{"1":"B","3":"D"}\<close> gives \<open>["B","D"]\<close>, so position 1 holds
  \<open>"D"\<close> while key 1 stores \<open>"B"\<close>.
\<close>

theorem label_position_gap_counterexample:
  "build_labels (json_parse_object [(''1'', ''B''), (''3'', ''D'')]) = [Some ''B'', Some ''D'']
   \<and> obj_get (json_parse_object [(''1'', ''B''), (''3'', ''D'')]) (show_nat 1) = Some ''B''
   \<and> build_labels (json_parse_object [(''1'', ''B''), (''3'', ''D'')]) ! 1
       \<noteq> obj_get (json_parse_object [(''1'', ''B''), (''3'', ''D'')]) (show_nat 1)"
  by code_simp

text \<open>
  Claim C2, weight loading. The loader takes the first group of the weights manifest,
  \<open>weightsManifest[0]\<close>, and nothing of the groups after it. When every shard that the
  first group lists can be read and the total size is one a \<open>Buffer\<close> can have, the loader
  reads these shards in the order the group declares them, each once, and hands to model
  construction the topology, the first group's weight specifications unchanged, and as
  weight data exactly the concatenation of these shard contents in that order, whose
  length is the sum of their lengths.
\<close>

theorem weights_concatenated_in_manifest_order:
  assumes "weightsManifest modelJson = manifestGroup # others"
    and "map (\<lambda>p. fs (model_path p)) (paths manifestGroup) = map Some shards"
    and "sum_list (map length shards) \<le> kMaxLength"
  shows "load_weights fs model_path kMaxLength before after modelJson =
           (map model_path (paths manifestGroup),
            Inr \<lparr>artifactTopology = modelTopology modelJson,
                 weightSpecs = weights manifestGroup,
                 weightData = concat shards\<rparr>)
         \<and> length (concat shards) = sum_list (map length shards)"
proof -
  have len: "length (concat shards) = sum_list (map length shards)"
    by (simp add: length_concat)
  have rd: "read_shards fs model_path (paths manifestGroup)
              = (map model_path (paths manifestGroup), Inr shards)"
    using assms(2) by (rule read_shards_present)
  have cc: "buffer_concat kMaxLength before after shards
              = Inr \<lparr>buffer = before @ concat shards @ after, byteOffset = length before,
                     byteLength = length (concat shards)\<rparr>"
    using assms(3) by (simp add: buffer_concat_def len)
  have "load_weights fs model_path kMaxLength before after modelJson =
           (map model_path (paths manifestGroup),
            Inr \<lparr>artifactTopology = modelTopology modelJson,
                 weightSpecs = weights manifestGroup,
                 weightData = concat shards\<rparr>)"
    by (simp add: load_weights_def assms(1) rd cc slice_of_view)
  with len show ?thesis by simp
qed

theorem weights_concatenated_in_manifest_order_witness:
  "load_weights [''model/s1.bin'' \<mapsto> [1, 2], ''model/s2.bin'' \<mapsto> [3]] (\<lambda>p. ''model/'' @ p) 1000 [7] [9, 9]
      \<lparr>modelTopology = ''graph'', weightsManifest = [\<lparr>paths = [''s2.bin'', ''s1.bin''], weights = [''dense/kernel'']\<rparr>]\<rparr>
    = ([''model/s2.bin'', ''model/s1.bin''],
       Inr \<lparr>artifactTopology = ''graph'', weightSpecs = [''dense/kernel''], weightData = [3, 1, 2]\<rparr>)"
  using weights_concatenated_in_manifest_order
    [of "\<lparr>modelTopology = ''graph'', weightsManifest = [\<lparr>paths = [''s2.bin'', ''s1.bin''], weights = [''dense/kernel'']\<rparr>]\<rparr>"
        "\<lparr>paths = [''s2.bin'', ''s1.bin''], weights = [''dense/kernel'']\<rparr>" "[]"
        "[''model/s1.bin'' \<mapsto> [1, 2], ''model/s2.bin'' \<mapsto> [3]]" "\<lambda>p. ''model/'' @ p"
        "[[3], [1, 2]]" 1000 "[7]" "[9, 9]"]
  by simp

text \<open>
  Claim C2 as first stated has the loader read each shard that the manifest references and
  pass on the manifest's weight specifications. With two groups in the manifest this fails:
  the shard of the second group is not read, its bytes are not in the weight data, and its
  weight specification is not handed over.
\<close>

theorem second_manifest_group_counterexample:
  "load_weights [''model/s1.bin'' \<mapsto> [1, 2], ''model/s2.bin'' \<mapsto> [3]] (\<lambda>p. ''model/'' @ p) 1000 [] []
      \<lparr>modelTopology = ''graph'',
       weightsManifest = [\<lparr>paths = [''s1.bin''], weights = [''dense/kernel'']\<rparr>,
                          \<lparr>paths = [''s2.bin''], weights = [''dense/bias'']\<rparr>]\<rparr>
    = ([''model/s1.bin''],
       Inr \<lparr>artifactTopology = ''graph'', weightSpecs = [''dense/kernel''], weightData = [1, 2]\<rparr>)"
  by (simp add: load_weights_def readFileSync_def buffer_concat_def array_buffer_slice_def)

text \<open>
  Claim C3, normalization. With a float32 rounding that is monotone and exact on 0 and 1,
  the first server's preprocessing of any image gives a tensor of shape
  \<open>[1, 224, 224, 3]\<close> with \<open>224 * 224 * 3\<close> values: the value of channel \<open>ch\<close> of the pixel
  at \<open>(x, y)\<close> of the canvas is that channel's byte divided by 255 (rounded), it lies in
  \<open>[0, 1]\<close>, it is exactly 1 when the byte is 255 and exactly 0 when the byte is 0. In
  \<open>server.js\<close> the decoded image goes through the same division: each value of the result
  is a sample of the resized image divided by 255, in \<open>[0, 1]\<close>, 1 for a sample of 255 and 0
  for a sample of 0, and the shape is \<open>[1, 224, 224, 3]\<close> for a three-channel image.
\<close>

theorem pixels_normalized_to_unit_interval:
  assumes "rounding f32"
  shows "(let canvas = drawImage paint img (createCanvas 224 224);
              input = preprocess paint f32 img
          in shape input = [1, 224, 224, 3]
           \<and> length (vals input) = 224 * 224 * 3
           \<and> list_all (\<lambda>v. 0 \<le> v \<and> v \<le> 1) (vals input)
           \<and> (\<forall>x y ch. x < 224 \<and> y < 224 \<and> ch < 3 \<longrightarrow>
                 (let byte = (case pixel canvas x y of (r, g, b, a) \<Rightarrow> [uint r, uint g, uint b]) ! ch;
                      v = vals input ! ((y * 224 + x) * 3 + ch)
                  in v = f32 (of_int byte / 255)
                   \<and> (byte = 255 \<longrightarrow> v = 1) \<and> (byte = 0 \<longrightarrow> v = 0))))
       \<and> (decoded_image decoded \<longrightarrow>
           (let resized = resizeNearestNeighbor 224 224 decoded;
                input = preprocess_srv f32 decoded
            in shape input = [1, 224, 224, channels decoded]
             \<and> length (vals input) = 224 * (224 * channels decoded)
             \<and> list_all (\<lambda>v. 0 \<le> v \<and> v \<le> 1) (vals input)
             \<and> (\<forall>i < length (vals input).
                   vals input ! i = f32 (of_int (samples resized ! i) / 255)
                 \<and> (samples resized ! i = 255 \<longrightarrow> vals input ! i = 1)
                 \<and> (samples resized ! i = 0 \<longrightarrow> vals input ! i = 0))))"
proof -
  have z: "f32 0 = 0" and o: "f32 1 = 1"
    using assms by (simp_all add: rounding_def)
  let ?canvas = "drawImage paint img (createCanvas 224 224)"
  let ?input = "preprocess paint f32 img"
  let ?byte = "\<lambda>x y ch. (case pixel ?canvas x y of (r, g, b, a) \<Rightarrow> [uint r, uint g, uint b]) ! ch"
  have input: "?input = normalize f32 (fromPixels ?canvas)"
    by (simp add: preprocess_def)
  have w: "width ?canvas = 224" and h: "height ?canvas = 224"
    by (simp_all add: drawImage_def createCanvas_def)
  have a1: "shape ?input = [1, 224, 224, 3]"
    unfolding input by (simp add: normalize_shape fromPixels_shape w h)
  have a2: "length (vals ?input) = 224 * 224 * 3"
    unfolding input by (simp add: normalize_vals fromPixels_length w h)
  have a3: "list_all (\<lambda>v. 0 \<le> v \<and> v \<le> 1) (vals ?input)"
    unfolding input using assms fromPixels_range by (rule normalize_range)
  have a4: "vals ?input ! ((y * 224 + x) * 3 + ch) = f32 (of_int (?byte x y ch) / 255)
            \<and> (?byte x y ch = 255 \<longrightarrow> vals ?input ! ((y * 224 + x) * 3 + ch) = 1)
            \<and> (?byte x y ch = 0 \<longrightarrow> vals ?input ! ((y * 224 + x) * 3 + ch) = 0)"
    if "x < 224 \<and> y < 224 \<and> ch < 3" for x y ch
  proof -
    have i: "(y * 224 + x) * 3 + ch < length (vals (fromPixels ?canvas))"
      using that by (simp add: fromPixels_length w h)
    have "vals (fromPixels ?canvas) ! ((y * width ?canvas + x) * 3 + ch) = ?byte x y ch"
      using that by (intro fromPixels_at) (simp_all add: w h)
    then have "vals (fromPixels ?canvas) ! ((y * 224 + x) * 3 + ch) = ?byte x y ch"
      unfolding w .
    then have "vals ?input ! ((y * 224 + x) * 3 + ch) = f32 (of_int (?byte x y ch) / 255)"
      unfolding input normalize_vals using i by (simp only: nth_map)
    then show ?thesis
      by (simp add: z o)
  qed
  let ?resized = "resizeNearestNeighbor 224 224 decoded"
  let ?inp = "preprocess_srv f32 decoded"
  have inp: "?inp = normalize f32 (as_tensor ?resized)"
    by (simp add: preprocess_srv_def)
  have v: "vals (as_tensor ?resized) = samples ?resized"
    by (simp add: as_tensor_def)
  have b1: "shape ?inp = [1, 224, 224, channels decoded]"
    unfolding inp by (simp add: normalize_shape resize_shape)
  have b2: "length (vals ?inp) = 224 * (224 * channels decoded)"
    unfolding inp by (simp add: normalize_vals v resize_length)
  have b3: "list_all (\<lambda>v. 0 \<le> v \<and> v \<le> 1) (vals ?inp)" if d: "decoded_image decoded"
  proof -
    have "list_all (\<lambda>v. 0 \<le> v \<and> v \<le> 255) (vals (as_tensor ?resized))"
      unfolding v using d by (rule resize_range)
    with assms show ?thesis
      unfolding inp by (rule normalize_range)
  qed
  have b4: "vals ?inp ! i = f32 (of_int (samples ?resized ! i) / 255)
            \<and> (samples ?resized ! i = 255 \<longrightarrow> vals ?inp ! i = 1)
            \<and> (samples ?resized ! i = 0 \<longrightarrow> vals ?inp ! i = 0)"
    if "i < length (vals ?inp)" for i
  proof -
    from that have "i < length (samples ?resized)"
      unfolding inp normalize_vals v by simp
    then have "vals ?inp ! i = f32 (of_int (samples ?resized ! i) / 255)"
      unfolding inp normalize_vals v by (simp only: nth_map)
    then show ?thesis by (simp add: z o)
  qed
  show ?thesis
    unfolding Let_def using a1 a2 a3 a4 b1 b2 b3 b4 by blast
qed

theorem pixels_normalized_to_unit_interval_witness:
  "rounding (\<lambda>v. v)
   \<and> decoded_image \<lparr>rows = 1, cols = 1, channels = 3, samples = [255, 0, 128]\<rparr>
   \<and> shape (preprocess (\<lambda>img cv x y. (255, 0, 128, 255)) (\<lambda>v. v) ()) = [1, 224, 224, 3]
   \<and> vals (preprocess (\<lambda>img cv x y. (255, 0, 128, 255)) (\<lambda>v. v) ()) ! 0 = 1
   \<and> vals (preprocess (\<lambda>img cv x y. (255, 0, 128, 255)) (\<lambda>v. v) ()) ! 1 = 0
   \<and> shape (preprocess_srv (\<lambda>v. v) \<lparr>rows = 1, cols = 1, channels = 3, samples = [255, 0, 128]\<rparr>)
       = [1, 224, 224, 3]"
proof -
  let ?paint = "\<lambda>(img::unit) (cv::canvas) (x::nat) (y::nat). (255, 0, 128, 255) :: rgba"
  let ?decoded = "\<lparr>rows = 1, cols = 1, channels = 3, samples = [255, 0, 128]\<rparr>"
  have r: "rounding (\<lambda>v. v)"
    by (simp add: rounding_def mono_def)
  have d: "decoded_image ?decoded"
    by (simp add: decoded_image_def)
  note t = pixels_normalized_to_unit_interval [OF r, of ?paint "()" ?decoded, unfolded Let_def]
  from t have s: "shape (preprocess ?paint (\<lambda>v. v) ()) = [1, 224, 224, 3]"
    by (rule conjunct1 [THEN conjunct1])
  from t d have s': "shape (preprocess_srv (\<lambda>v. v) ?decoded) = [1, 224, 224, 3]"
    by simp
  from t have px: "\<forall>x y ch. x < 224 \<and> y < 224 \<and> ch < 3 \<longrightarrow>
      vals (preprocess ?paint (\<lambda>v. v) ()) ! ((y * 224 + x) * 3 + ch)
        = rat_of_int ((case pixel (drawImage ?paint () (createCanvas 224 224)) x y of
                        (r, g, b, a) \<Rightarrow> [uint r, uint g, uint b]) ! ch) / 255"
    by blast
  have v0: "vals (preprocess ?paint (\<lambda>v. v) ()) ! 0 = 1"
    using px [rule_format, of 0 0 0] by (simp add: drawImage_def)
  have v1: "vals (preprocess ?paint (\<lambda>v. v) ()) ! 1 = 0"
    using px [rule_format, of 0 0 1] by (simp add: drawImage_def)
  from r d s s' v0 v1 show ?thesis by blast
qed

text \<open>
  Claim C4, class index. For a non-empty output vector without NaN, \<open>maxIdx\<close> is an index
  of the vector, no element is greater than the one at \<open>maxIdx\<close>, every earlier element is
  smaller (so ties go to the lowest index), and the confidence is computed from the element
  at \<open>maxIdx\<close>. For the float32 vector \<open>[0.2, 0.5, 0.5, 0.1]\<close> the index is 1 and the
  confidence is \<open>50.00\<close>.
\<close>

theorem class_index_is_first_maximum:
  assumes "data \<noteq> []" and "NaN \<notin> set data"
  shows "(\<exists>k < length data. max_index data = int k
            \<and> (\<forall>j < length data. \<not> num_less (data ! k) (data ! j))
            \<and> (\<forall>j < k. num_less (data ! j) (data ! k))
            \<and> confidence_of to_string data (max_index data)
                = toFixed2 to_string (times100 (Some (data ! k))))
         \<and> max_index [Fin (13421773 / 67108864), Fin (1 / 2), Fin (1 / 2), Fin (13421773 / 134217728)] = 1
         \<and> confidence_of to_string
              [Fin (13421773 / 67108864), Fin (1 / 2), Fin (1 / 2), Fin (13421773 / 134217728)] 1
             = ''50.00''"
proof -
  from max_index_first_maximum [OF assms]
  obtain k where k: "k < length data" "max_index data = int k"
    "\<forall>j < length data. \<not> num_less (data ! k) (data ! j)"
    "\<forall>j < k. num_less (data ! j) (data ! k)" by blast
  have "confidence_of to_string data (max_index data) = toFixed2 to_string (times100 (Some (data ! k)))"
    using k(1) by (simp add: confidence_of_def k(2) element_at_nth)
  with k have general: "\<exists>k < length data. max_index data = int k
            \<and> (\<forall>j < length data. \<not> num_less (data ! k) (data ! j))
            \<and> (\<forall>j < k. num_less (data ! j) (data ! k))
            \<and> confidence_of to_string data (max_index data)
                = toFixed2 to_string (times100 (Some (data ! k)))"
    by blast
  have index: "max_index [Fin (13421773 / 67108864), Fin (1 / 2), Fin (1 / 2), Fin (13421773 / 134217728)] = 1"
    by (simp add: max_index_def math_max_def indexOf_def)
  have "fixed2_digits (nearest_hundredth (1 / 2 * 100)) = ''50.00''"
    by code_simp
  then have conf: "confidence_of to_string
              [Fin (13421773 / 67108864), Fin (1 / 2), Fin (1 / 2), Fin (13421773 / 134217728)] 1
             = ''50.00''"
    by (simp add: confidence_of_def element_at_def)
  from general index conf show ?thesis by blast
qed

theorem class_index_is_first_maximum_witness:
  "[Fin (1 / 4), Fin (1 / 2), Fin (1 / 2), Fin (1 / 8)] \<noteq> []
   \<and> NaN \<notin> set [Fin (1 / 4), Fin (1 / 2), Fin (1 / 2), Fin (1 / 8)]
   \<and> (\<exists>k < length [Fin (1 / 4), Fin (1 / 2), Fin (1 / 2), Fin (1 / 8)].
         max_index [Fin (1 / 4), Fin (1 / 2), Fin (1 / 2), Fin (1 / 8)] = int k
         \<and> num_less ([Fin (1 / 4), Fin (1 / 2), Fin (1 / 2), Fin (1 / 8)] ! 0)
                     ([Fin (1 / 4), Fin (1 / 2), Fin (1 / 2), Fin (1 / 8)] ! k))
   \<and> max_index [Fin (1 / 4), Fin (1 / 2), Fin (1 / 2), Fin (1 / 8)] = 1"
proof -
  let ?data = "[Fin (1 / 4), Fin (1 / 2), Fin (1 / 2), Fin (1 / 8)]"
  have h: "?data \<noteq> []" "NaN \<notin> set ?data" by simp_all
  have m: "max_index ?data = 1"
    by (simp add: max_index_def math_max_def indexOf_def)
  from class_index_is_first_maximum [OF h, of "\<lambda>x. ''''"]
  obtain k where k: "k < length ?data" "max_index ?data = int k"
    "\<forall>j < k. num_less (?data ! j) (?data ! k)" by blast
  from k(2) m have "0 < k" by simp
  with k(3) have "num_less (?data ! 0) (?data ! k)" by blast
  with h m k(1,2) show ?thesis by blast
qed

text \<open>
  Claim C5, cleanup. Whatever the state of the server, the libraries and the model do with
  a request that carries an upload (success, decode failure, model not loaded, any other
  exception), the file system the handler leaves has no file at the upload's path, and every
  other file is as before. This holds for both servers.
\<close>

theorem upload_deleted_on_every_exit:
  "\<not> existsSync (fst (snd (predict_handler rt st fs (Some file)))) (path file)
   \<and> (\<forall>p. p \<noteq> path file \<longrightarrow> fst (snd (predict_handler rt st fs (Some file))) p = fs p)
   \<and> \<not> existsSync (fst (snd (predict_handler_srv rts st fs (Some file)))) (path file)
   \<and> (\<forall>p. p \<noteq> path file \<longrightarrow> fst (snd (predict_handler_srv rts st fs (Some file))) p = fs p)"
  unfolding predict_handler_fs predict_handler_srv_fs
  by (simp add: unlink_removes)

theorem upload_deleted_on_every_exit_witness:
  "existsSync [''uploads/leaf'' \<mapsto> [1], ''model/model.json'' \<mapsto> [2]] ''uploads/leaf''
   \<and> \<not> existsSync (fst (snd (predict_handler
          \<lparr>rt_decode = (\<lambda>b. Inr ()), rt_paint = (\<lambda>img cv x y. (0, 0, 0, 0)),
           rt_f32 = (\<lambda>v. v), rt_to_string = (\<lambda>x. '''')\<rparr>
          initial_state [''uploads/leaf'' \<mapsto> [1], ''model/model.json'' \<mapsto> [2]]
          (Some \<lparr>path = ''uploads/leaf''\<rparr>)))) ''uploads/leaf''
   \<and> fst (snd (predict_handler_srv
          \<lparr>rt_jimp = (\<lambda>b. Inl (Error ''Could not find MIME for Buffer'')),
           rt_decodeImage = (\<lambda>b. Inl (Error '''')),
           rt_f32_srv = (\<lambda>v. v), rt_to_string_srv = (\<lambda>x. '''')\<rparr>
          initial_state [''uploads/leaf'' \<mapsto> [1], ''model/model.json'' \<mapsto> [2]]
          (Some \<lparr>path = ''uploads/leaf''\<rparr>))) ''model/model.json'' = Some [2]"
  using upload_deleted_on_every_exit
    [of "\<lparr>rt_decode = (\<lambda>b. Inr ()), rt_paint = (\<lambda>img cv x y. (0, 0, 0, 0)),
           rt_f32 = (\<lambda>v. v), rt_to_string = (\<lambda>x. '''')\<rparr>"
        initial_state "[''uploads/leaf'' \<mapsto> [1], ''model/model.json'' \<mapsto> [2]]"
        "\<lparr>path = ''uploads/leaf''\<rparr>"
        "\<lparr>rt_jimp = (\<lambda>b. Inl (Error ''Could not find MIME for Buffer'')),
           rt_decodeImage = (\<lambda>b. Inl (Error '''')),
           rt_f32_srv = (\<lambda>v. v), rt_to_string_srv = (\<lambda>x. '''')\<rparr>"]
  by (simp add: existsSync_def)

text \<open>
  Claim C6, unknown label. Resolving a class index against the label list is total: an index
  below zero or beyond the end of the list, an undefined element and an empty label all give
  \<open>"Unknown"\<close>, any other element gives the label itself, and the result is never empty.
  In the handlers nothing throws once inference has returned its vector: the first server
  answers 200 with that label in the body, \<open>server.js\<close> answers 200.
\<close>

theorem label_resolution_never_fails:
  "(maxIdx < 0 \<or> int (length labelList) \<le> maxIdx \<longrightarrow> resolve_label labelList maxIdx = ''Unknown'')
   \<and> (0 \<le> maxIdx \<and> maxIdx < int (length labelList) \<longrightarrow>
        resolve_label labelList maxIdx =
          (case labelList ! nat maxIdx of
             Some name \<Rightarrow> if name = [] then ''Unknown'' else name
           | None \<Rightarrow> ''Unknown''))
   \<and> resolve_label labelList maxIdx \<noteq> []
   \<and> (model st = Some m \<and> loadImage rt fs (path file) = Inr img
        \<and> m (preprocess (rt_paint rt) (rt_f32 rt) img) = Inr data \<longrightarrow>
        (\<exists>body. fst (predict_handler rt st fs (Some file)) = Json_response 200 body
           \<and> obj_get body ''label'' = Some (Json (JStr (resolve_label (labels st) (max_index data))))))
   \<and> (model st = Some m \<and> readFileSync fs (path file) = Inr bytes \<and> rt_jimp rts bytes = Inr jpeg
        \<and> rt_decodeImage rts jpeg = Inr decoded
        \<and> m (preprocess_srv (rt_f32_srv rts) decoded) = Inr data \<longrightarrow>
        (\<exists>body. fst (predict_handler_srv rts st fs (Some file)) = Json_response 200 body))"
proof -
  have 1: "resolve_label labelList maxIdx = ''Unknown''"
    if "maxIdx < 0 \<or> int (length labelList) \<le> maxIdx"
    using element_at_outside [OF that] by (simp add: resolve_label_def)
  have 2: "resolve_label labelList maxIdx =
          (case labelList ! nat maxIdx of
             Some name \<Rightarrow> if name = [] then ''Unknown'' else name
           | None \<Rightarrow> ''Unknown'')"
    if "0 \<le> maxIdx \<and> maxIdx < int (length labelList)"
    using that by (simp add: resolve_label_def element_at_def split: option.splits)
  have 3: "resolve_label labelList maxIdx \<noteq> []"
    by (simp add: resolve_label_def split: option.splits)
  have 4: "\<exists>body. fst (predict_handler rt st fs (Some file)) = Json_response 200 body
           \<and> obj_get body ''label'' = Some (Json (JStr (resolve_label (labels st) (max_index data))))"
    if "model st = Some m \<and> loadImage rt fs (path file) = Inr img
        \<and> m (preprocess (rt_paint rt) (rt_f32 rt) img) = Inr data"
    using that
    by (simp add: predict_handler_def predict_try_def success_response_def Let_def
        object_literal_response obj_get_def)
  have 5: "\<exists>body. fst (predict_handler_srv rts st fs (Some file)) = Json_response 200 body"
    if "model st = Some m \<and> readFileSync fs (path file) = Inr bytes \<and> rt_jimp rts bytes = Inr jpeg
        \<and> rt_decodeImage rts jpeg = Inr decoded
        \<and> m (preprocess_srv (rt_f32_srv rts) decoded) = Inr data"
    using that
    by (simp add: predict_handler_srv_def predict_try_srv_def success_response_srv_def Let_def)
  from 1 2 3 4 5 show ?thesis by blast
qed

theorem label_resolution_never_fails_witness:
  "resolve_label [Some ''Apple___scab'', Some ''Apple___healthy''] 2 = ''Unknown''
   \<and> resolve_label [Some ''Apple___scab'', Some ''Apple___healthy''] (- 1) = ''Unknown''
   \<and> resolve_label [Some ''Apple___scab'', Some ''Apple___healthy''] 1 = ''Apple___healthy''
   \<and> (\<exists>body. fst (predict_handler
          \<lparr>rt_decode = (\<lambda>b. Inr ()), rt_paint = (\<lambda>img cv x y. (0, 0, 0, 0)),
           rt_f32 = (\<lambda>v. v), rt_to_string = (\<lambda>x. '''')\<rparr>
          \<lparr>model = Some (\<lambda>input. Inr [Fin (1 / 8), Fin (1 / 8), Fin (3 / 4)]),
           labels = [Some ''Apple___scab'', Some ''Apple___healthy''], solutions = []\<rparr>
          [''uploads/leaf'' \<mapsto> [1]] (Some \<lparr>path = ''uploads/leaf''\<rparr>))
        = Json_response 200 body \<and> obj_get body ''label'' = Some (Json (JStr ''Unknown'')))"
proof -
  let ?rt = "\<lparr>rt_decode = (\<lambda>b. Inr ()), rt_paint = (\<lambda>img cv x y. (0, 0, 0, 0)),
           rt_f32 = (\<lambda>v. v), rt_to_string = (\<lambda>x. '''')\<rparr> :: unit runtime"
  let ?m = "\<lambda>input :: rat tensor. Inr [Fin (1 / 8), Fin (1 / 8), Fin (3 / 4)] :: exn + number list"
  let ?st = "\<lparr>model = Some ?m,
           labels = [Some ''Apple___scab'', Some ''Apple___healthy''], solutions = []\<rparr>"
  let ?fs = "[''uploads/leaf'' \<mapsto> [1]] :: file_system"
  let ?file = "\<lparr>path = ''uploads/leaf''\<rparr>"
  note t = label_resolution_never_fails
    [of _ "[Some ''Apple___scab'', Some ''Apple___healthy'']" ?st ?m ?rt ?fs ?file "()"
        "[Fin (1 / 8), Fin (1 / 8), Fin (3 / 4)]"]
  have a: "resolve_label [Some ''Apple___scab'', Some ''Apple___healthy''] 2 = ''Unknown''"
    using t [of 2] by simp
  have b: "resolve_label [Some ''Apple___scab'', Some ''Apple___healthy''] (- 1) = ''Unknown''"
    using t [of "- 1"] by simp
  have c: "resolve_label [Some ''Apple___scab'', Some ''Apple___healthy''] 1 = ''Apple___healthy''"
    using t [of 1] by simp
  have m: "max_index [Fin (1 / 8), Fin (1 / 8), Fin (3 / 4)] = 2"
    by (simp add: max_index_def math_max_def indexOf_def)
  have l: "loadImage ?rt ?fs (path ?file) = Inr ()"
    by (simp add: loadImage_def readFileSync_def)
  from t [of 2] l have "\<exists>body. fst (predict_handler ?rt ?st ?fs (Some ?file)) = Json_response 200 body
      \<and> obj_get body ''label'' = Some (Json (JStr (resolve_label (labels ?st) (max_index [Fin (1 / 8), Fin (1 / 8), Fin (3 / 4)]))))"
    by simp
  then have d: "\<exists>body. fst (predict_handler ?rt ?st ?fs (Some ?file)) = Json_response 200 body
      \<and> obj_get body ''label'' = Some (Json (JStr ''Unknown''))"
    unfolding m using a by simp
  from a b c d show ?thesis by blast
qed

text \<open>
  Claim C7, remedy lookup. For a label that is not the name of a property of
  \<open>Object.prototype\<close>, the lookup gives the catalog entry stored under the label when there
  is one and it is truthy, and otherwise (no entry, an empty catalog, or an entry that is
  \<open>null\<close>, \<open>false\<close>, \<open>0\<close> or \<open>""\<close>) the fixed default of the server. The default of the
  first server has the solution \<open>"Use proper fertilizers and care."\<close> and the pesticide
  \<open>"Apply recommended pesticide."\<close>; the default of \<open>server.js\<close> has
  \<open>"General care needed."\<close> and \<open>"Use appropriate pesticide."\<close>. The lookup is total and the
  texts of both defaults are strings that are not empty.
\<close>

theorem remedy_lookup_falls_back_to_default:
  assumes "label \<notin> set object_prototype_keys"
  shows "remedy_info catalog label =
           (case obj_get catalog label of
              Some entry \<Rightarrow> if truthy (Json entry) then Json entry else default_info label
            | None \<Rightarrow> default_info label)
       \<and> remedy_info_srv catalog label =
           (case obj_get catalog label of
              Some entry \<Rightarrow> if truthy (Json entry) then Json entry else default_info_srv
            | None \<Rightarrow> default_info_srv)
       \<and> remedy_info [] label = default_info label
       \<and> remedy_info_srv [] label = default_info_srv
       \<and> get_field (default_info label) ''solution'' = Json (JStr ''Use proper fertilizers and care.'')
       \<and> get_field (default_info label) ''pesticide'' = Json (JStr ''Apply recommended pesticide.'')
       \<and> get_field default_info_srv ''solution'' = Json (JStr ''General care needed.'')
       \<and> get_field default_info_srv ''pesticide'' = Json (JStr ''Use appropriate pesticide.'')"
proof -
  have "remedy_info [] label = default_info label" "remedy_info_srv [] label = default_info_srv"
    using assms by (simp_all add: remedy_info_lookup obj_get_def)
  with remedy_info_lookup [OF assms] default_info_fields
  show ?thesis by simp
qed

theorem remedy_lookup_falls_back_to_default_witness:
  "''Tomato___Late_blight'' \<notin> set object_prototype_keys
   \<and> remedy_info [(''Tomato___healthy'', JObj [(''solution'', JStr ''None needed.'')])]
        ''Tomato___Late_blight'' = default_info ''Tomato___Late_blight''
   \<and> remedy_info [(''Tomato___healthy'', JObj [(''solution'', JStr ''None needed.'')])]
        ''Tomato___healthy'' = Json (JObj [(''solution'', JStr ''None needed.'')])
   \<and> get_field (remedy_info [] ''Tomato___Late_blight'') ''solution''
        = Json (JStr ''Use proper fertilizers and care.'')"
proof -
  have h: "''Tomato___Late_blight'' \<notin> set object_prototype_keys"
    "''Tomato___healthy'' \<notin> set object_prototype_keys"
    by (simp_all add: object_prototype_keys_def)
  from remedy_lookup_falls_back_to_default [OF h(1), of "[(''Tomato___healthy'', JObj [(''solution'', JStr ''None needed.'')])]"]
    remedy_lookup_falls_back_to_default [OF h(2), of "[(''Tomato___healthy'', JObj [(''solution'', JStr ''None needed.'')])]"]
    h(1)
  show ?thesis by (simp add: obj_get_def)
qed

text \<open>
  Claim C7 as first stated names one default for every label. \<open>server.js\<close> answers a label
  without entry with its own default, whose solution is \<open>"General care needed."\<close>; and in the
  first server the label \<open>"constructor"\<close> finds the function inherited from
  \<open>Object.prototype\<close>, which is truthy and has no \<open>solution\<close>.
\<close>

theorem remedy_default_counterexample:
  "get_field (remedy_info_srv [] ''Tomato___Late_blight'') ''solution''
     = Json (JStr ''General care needed.'')
   \<and> get_field (remedy_info_srv [] ''Tomato___Late_blight'') ''solution''
     \<noteq> Json (JStr ''Use proper fertilizers and care.'')
   \<and> remedy_info [] ''constructor'' = Inherited ''constructor''
   \<and> get_field (remedy_info [] ''constructor'') ''solution'' = Undefined"
  by (simp add: remedy_info_srv_def remedy_info_def get_property_def obj_get_def
      object_prototype_keys_def default_info_srv_def get_field_def)




text \<open>
  Claim C9, confidence percentage. For a non-empty output vector of probabilities, the
  reported confidence is the two-decimal rendering of \<open>n / 100\<close>, where \<open>n\<close> is
  \<open>confidence01 * 100\<close> scaled by 100 and rounded to the nearest integer, halves upwards:
  the integer part of \<open>n / 100\<close>, a point, and its two decimals. It is within half a
  hundredth of \<open>confidence01 * 100\<close>, and \<open>n \<le> 10000\<close>, so the percentage is between 0 and
  100. The confidence is reported as that string of digits.
\<close>

theorem confidence_percent_two_decimals:
  assumes "data \<noteq> []" and "list_all probability data"
  shows "\<exists>k p. k < length data \<and> max_index data = int k \<and> data ! k = Fin p \<and>
           (let n = nearest_hundredth (p * 100) in
              confidence_of to_string data (max_index data)
                = show_nat (n div 100) @ ''.'' @ [digit_char (n div 10 mod 10), digit_char (n mod 10)]
            \<and> int n = round (p * 100 * 100)
            \<and> \<bar>of_nat n / 100 - p * 100\<bar> \<le> 1 / 200
            \<and> n \<le> 10000)"
proof -
  have nan: "NaN \<notin> set data"
    using assms(2) by (auto simp: list_all_iff)
  from max_index_first_maximum [OF assms(1) nan]
  obtain k where k: "k < length data" "max_index data = int k" by blast
  from k(1) assms(2) have "probability (data ! k)"
    by (simp add: list_all_iff)
  then obtain p where p: "data ! k = Fin p" "0 \<le> p" "p \<le> 1"
    using probability_cases by blast
  define n where "n = nearest_hundredth (p * 100)"
  have x: "0 \<le> p * 100" "p * 100 \<le> 100" using p(2,3) by simp_all
  then have small: "\<not> \<bar>p * 100\<bar> \<ge> 10 ^ 21" by simp
  have "confidence_of to_string data (max_index data) = toFixed2 to_string (Fin (p * 100))"
    using k(1) by (simp add: confidence_of_def k(2) element_at_nth p(1))
  also have "\<dots> = fixed2_digits n"
    using x(1) small by (simp add: n_def)
  finally have 1: "confidence_of to_string data (max_index data)
      = show_nat (n div 100) @ ''.'' @ [digit_char (n div 10 mod 10), digit_char (n mod 10)]"
    by (simp only: fixed2_digits_eq)
  have 2: "int n = round (p * 100 * 100)"
    unfolding n_def using x(1) by (rule nearest_hundredth_round)
  have "\<bar>of_int (round (p * 100 * 100)) - p * 100 * 100\<bar> \<le> 1 / 2"
    by (rule of_int_round_abs_le)
  then have "\<bar>of_nat n - p * 100 * 100\<bar> \<le> 1 / 2"
    using 2 by (metis of_int_of_nat_eq)
  then have 3: "\<bar>of_nat n / 100 - p * 100\<bar> \<le> 1 / 200"
    by (simp add: abs_le_iff field_simps)
  have "round (p * 100 * 100) \<le> round (10000 :: rat)"
    using x(2) by (intro round_mono) simp
  then have 4: "n \<le> 10000"
    using 2 by simp
  from k p(1) 1 2 3 4 show ?thesis
    unfolding n_def Let_def by blast
qed

theorem confidence_percent_two_decimals_witness:
  "[Fin (1 / 8), Fin (7 / 8)] \<noteq> [] \<and> list_all probability [Fin (1 / 8), Fin (7 / 8)]
   \<and> confidence_of (\<lambda>x. '''') [Fin (1 / 8), Fin (7 / 8)] (max_index [Fin (1 / 8), Fin (7 / 8)]) = ''87.50''"
proof -
  let ?data = "[Fin (1 / 8), Fin (7 / 8)]"
  have h: "?data \<noteq> []" "list_all probability ?data" by simp_all
  have m: "max_index ?data = 1"
    by (simp add: max_index_def math_max_def indexOf_def)
  from confidence_percent_two_decimals [OF h, of "\<lambda>x. ''''"]
  obtain k p where k: "k < length ?data" "max_index ?data = int k" "?data ! k = Fin p"
    and c: "confidence_of (\<lambda>x. '''') ?data (max_index ?data)
      = show_nat (nearest_hundredth (p * 100) div 100) @ ''.'' @
        [digit_char (nearest_hundredth (p * 100) div 10 mod 10), digit_char (nearest_hundredth (p * 100) mod 10)]"
    unfolding Let_def by blast
  from k(2) m have "k = 1" by simp
  with k(3) have p: "p = 7 / 8" by simp
  have n: "nearest_hundredth (7 / 8 * 100) = 8750"
    by code_simp
  have "show_nat 87 @ ''.'' @ [digit_char 5, digit_char 0] = ''87.50''"
    by code_simp
  with c have "confidence_of (\<lambda>x. '''') ?data (max_index ?data) = ''87.50''"
    unfolding p n by simp
  with h show ?thesis by blast
qed

text \<open>
  Claim C10, round trip between training and serving. For a list of class names (a
  JavaScript array, so shorter than \<open>2^32\<close>), the class-index object that
  \<open>train_model.js\<close> builds by position, written with \<open>JSON.stringify\<close> and read
  back by the server with \<open>JSON.parse\<close>, gives as label list exactly the class names in
  their original order: the label at position \<open>i\<close> is the training-time class \<open>i\<close>.
\<close>

theorem class_indices_round_trip:
  assumes "length names < 2 ^ 32"
  shows "build_labels (json_parse_object (json_stringify_object (train_class_indices names)))
           = map Some names"
proof -
  define written where "written = json_stringify_object (train_class_indices names)"
  define classIndices where "classIndices = json_parse_object written"
  have w: "written = train_class_indices names"
    by (simp add: written_def json_stringify_object_def)
  have dw: "distinct (map fst written)"
    and kw: "fst ` set written = show_nat ` {0..<length names}"
    using train_class_indices_props(1,2) [of names] by (simp_all add: w object_keys_def)
  have dk: "distinct (object_keys classIndices)"
    and ks: "set (object_keys classIndices) = show_nat ` {0..<length names}"
    unfolding classIndices_def using kw by (simp_all only: json_parse_object_props)
  have get: "obj_get classIndices k = obj_get (train_class_indices names) k" for k
    unfolding classIndices_def json_parse_object_props(3)
    using dw by (simp add: map_of_rev_distinct obj_get_def w)
  have "index_key (show_nat i)" if "i < length names" for i
  proof (rule index_key_show_nat)
    have "i < 2 ^ 32" using that assms by simp
    also have "(2::nat) ^ 32 \<le> 2 ^ 53" by simp
    finally show "i \<le> 2 ^ 53" by simp
  qed
  then have ik: "list_all index_key (object_keys classIndices)"
    using ks by (auto simp: list_all_iff)
  have "build_labels classIndices = map (\<lambda>i. obj_get classIndices (show_nat i)) [0..<length names]"
    using dk ks ik by (rule build_labels_contiguous)
  also have "\<dots> = map (\<lambda>i. Some (names ! i)) [0..<length names]"
    by (rule map_cong) (simp_all add: get train_class_indices_props(3))
  also have "\<dots> = map Some (map (\<lambda>i. names ! i) [0..<length names])"
    by simp
  also have "\<dots> = map Some names"
    by (simp only: map_nth)
  finally show ?thesis
    unfolding classIndices_def written_def .
qed

theorem class_indices_round_trip_witness:
  "length [''Apple'', ''Corn'', ''Tomato''] < (2::nat) ^ 32
   \<and> build_labels (json_parse_object (json_stringify_object
         (train_class_indices [''Apple'', ''Corn'', ''Tomato''])))
       = [Some ''Apple'', Some ''Corn'', Some ''Tomato'']"
  using class_indices_round_trip [of "[''Apple'', ''Corn'', ''Tomato'']"] by simp

end
